theory Spec2Isabelle
  imports Main
begin

section \<open>The catalog store (schema.py)\<close>

text \<open>
  Every table of \<open>init_database\<close> is a list of rows in rowid order. Timestamps are
  opaque integers. A nullable column that the program may leave NULL is an \<open>option\<close>.
\<close>

type_synonym timestamp = int
type_synonym rowid = nat

record file_row =
  f_id :: rowid
  file_path :: string
  file_name :: string
  file_extension :: string
  file_size :: int
  f_created_at :: timestamp
  f_modified_at :: timestamp
  f_indexed_at :: timestamp
  checksum :: "string option"
  markdown_content :: "string option"
  content_summary :: "string option"
  processing_status :: string
  error_message :: "string option"
  last_summary_update :: "timestamp option"

record dir_row =
  d_id :: rowid
  dir_path :: string
  dir_name :: string
  parent_dir_path :: string
  depth :: nat
  d_created_at :: timestamp
  d_modified_at :: timestamp
  d_indexed_at :: timestamp
  d_title :: "string option"
  d_status :: "string option"
  owner :: "string option"
  last_documented_at :: "timestamp option"

record doc_row =
  doc_id :: rowid
  doc_directory_id :: rowid
  version :: nat
  title :: string
  description :: "string option"
  purpose :: "string option"
  guidelines :: "string option"
  doc_created_at :: timestamp
  doc_created_by :: "string option"
  is_current :: bool
  metadata :: "string option"

record tag_row =
  tag_id :: rowid
  tag_directory_id :: rowid
  tag_name :: string
  tag_created_at :: timestamp
  tag_created_by :: "string option"

record relation_row =
  rel_id :: rowid
  source_dir_id :: rowid
  target_dir_id :: rowid
  relation_type :: string
  rel_description :: "string option"
  rel_created_at :: timestamp

record format_row =
  fmt_id :: rowid
  extension :: string
  category :: string
  fmt_description :: string
  is_enabled :: bool

record queue_row =
  q_id :: rowid
  file_id :: rowid
  priority :: int
  status :: string
  q_created_at :: timestamp
  started_at :: "timestamp option"
  completed_at :: "timestamp option"
  q_error_message :: "string option"

record catalog =
  files :: "file_row list"
  directories :: "dir_row list"
  directory_docs :: "doc_row list"
  directory_tags :: "tag_row list"
  directory_relations :: "relation_row list"
  file_formats :: "format_row list"
  processing_queue :: "queue_row list"

text \<open>
  The storage engine is SQLite as the program opens it: foreign keys are declared in the
  schema but never switched on (no \<open>PRAGMA foreign_keys\<close>), so they are not enforced.
  An \<open>INTEGER PRIMARY KEY\<close> that the statement leaves out receives the largest id in
  the table plus one, and 1 in an empty table; the id is chosen before
  \<open>INSERT OR REPLACE\<close> deletes the row that holds the conflicting unique key.
\<close>

definition next_rowid :: "rowid list \<Rightarrow> rowid" where
  "next_rowid ids = Suc (fold max ids 0)"

datatype error =
    IntegrityError string
  | OperationalError nat

text \<open>
  A statement of a transaction. \<open>fault = Some k\<close> says that the store raises at the
  \<open>k\<close>-th statement of the call (disk full, database locked): the \<open>except\<close> branch of
  every operation below is reached this way, or by a constraint of the schema.
\<close>

definition stmt :: "nat option \<Rightarrow> nat \<Rightarrow> error + 'a \<Rightarrow> error + 'a" where
  "stmt fault k r = (if fault = Some k then Inl (OperationalError k) else r)"

definition get_supported_formats :: "(string \<times> string \<times> string) list" where
  "get_supported_formats =
    [(''pdf'', ''document'', ''PDF Document''),
     (''pptx'', ''presentation'', ''PowerPoint''),
     (''ppt'', ''presentation'', ''PowerPoint Legacy''),
     (''docx'', ''document'', ''Word Document''),
     (''doc'', ''document'', ''Word Legacy''),
     (''xlsx'', ''spreadsheet'', ''Excel Workbook''),
     (''xls'', ''spreadsheet'', ''Excel Legacy''),
     (''jpg'', ''image'', ''JPEG Image''),
     (''jpeg'', ''image'', ''JPEG Image''),
     (''png'', ''image'', ''PNG Image''),
     (''gif'', ''image'', ''GIF Image''),
     (''mp3'', ''audio'', ''MP3 Audio''),
     (''wav'', ''audio'', ''WAV Audio''),
     (''html'', ''web'', ''HTML Document''),
     (''htm'', ''web'', ''HTML Document''),
     (''csv'', ''data'', ''CSV Data''),
     (''json'', ''data'', ''JSON Data''),
     (''xml'', ''data'', ''XML Data''),
     (''zip'', ''archive'', ''ZIP Archive''),
     (''txt'', ''text'', ''Text Document'')]"

text \<open>\<open>INSERT OR IGNORE INTO file_formats\<close>: the extension is unique.\<close>

definition insert_or_ignore_format ::
  "format_row list \<Rightarrow> string \<times> string \<times> string \<Rightarrow> format_row list" where
  "insert_or_ignore_format rows f =
    (case f of (ext, cat, descr) \<Rightarrow>
      if ext \<in> set (map extension rows) then rows
      else rows @ [\<lparr>fmt_id = next_rowid (map fmt_id rows), extension = ext,
                     category = cat, fmt_description = descr, is_enabled = True\<rparr>])"

definition empty_catalog :: catalog where
  "empty_catalog = \<lparr>files = [], directories = [], directory_docs = [],
     directory_tags = [], directory_relations = [], file_formats = [],
     processing_queue = []\<rparr>"

definition init_database :: "catalog \<Rightarrow> catalog" where
  "init_database s =
    s\<lparr>file_formats := fold (\<lambda>f rows. insert_or_ignore_format rows f)
                          get_supported_formats (file_formats s)\<rparr>"

section \<open>The indexer (create_index.py)\<close>

text \<open>\<open>FileIndexer._get_supported_formats\<close>: the enabled extensions, read once.\<close>

definition indexer_get_supported_formats :: "catalog \<Rightarrow> string set" where
  "indexer_get_supported_formats s =
    set (map extension (filter is_enabled (file_formats s)))"

subsection \<open>Paths\<close>

text \<open>
  A path is the tuple \<open>Path.parts\<close> of a POSIX path: an absolute path starts with the
  part \<open>''/''\<close>. The functions below are \<open>str\<close>, \<open>.name\<close>, \<open>.parent\<close> and \<open>.suffix\<close>
  of pathlib; strings are ASCII.
\<close>

type_synonym path = "string list"

fun join_slash :: "string list \<Rightarrow> string" where
  "join_slash [] = []"
| "join_slash [x] = x"
| "join_slash (x # y # ys) = x @ ''/'' @ join_slash (y # ys)"

definition path_str :: "path \<Rightarrow> string" where
  "path_str p =
    (case p of [] \<Rightarrow> ''.''
     | x # xs \<Rightarrow> if x = ''/'' then ''/'' @ join_slash xs else join_slash (x # xs))"

definition path_name :: "path \<Rightarrow> string" where
  "path_name p = (if p = [] \<or> p = [''/''] then [] else last p)"

definition path_parent :: "path \<Rightarrow> path" where
  "path_parent p = (if p = [] \<or> p = [''/''] then p else butlast p)"

fun rfind_from :: "char \<Rightarrow> string \<Rightarrow> nat \<Rightarrow> int \<Rightarrow> int" where
  "rfind_from c [] i acc = acc"
| "rfind_from c (x # xs) i acc = rfind_from c xs (Suc i) (if x = c then int i else acc)"

definition rfind :: "char \<Rightarrow> string \<Rightarrow> int" where
  "rfind c xs = rfind_from c xs 0 (- 1)"

definition path_suffix :: "path \<Rightarrow> string" where
  "path_suffix p =
    (let name = path_name p; i = rfind (CHR ''.'') name
     in if 0 < i \<and> i < int (length name) - 1 then drop (nat i) name else [])"

definition ascii_lower :: "char \<Rightarrow> char" where
  "ascii_lower c =
    (case map_of (zip ''ABCDEFGHIJKLMNOPQRSTUVWXYZ'' ''abcdefghijklmnopqrstuvwxyz'') c of
       None \<Rightarrow> c
     | Some l \<Rightarrow> l)"

definition lower :: "string \<Rightarrow> string" where
  "lower xs = map ascii_lower xs"

definition lstrip_dot :: "string \<Rightarrow> string" where
  "lstrip_dot xs = dropWhile (\<lambda>c. c = CHR ''.'') xs"

text \<open>\<open>Path(file_path).suffix.lower().lstrip('.')\<close>\<close>

definition file_ext_of :: "path \<Rightarrow> string" where
  "file_ext_of p = lstrip_dot (lower (path_suffix p))"

subsection \<open>What the file system and the converter answer\<close>

record stat_result =
  st_size :: int
  st_ctime :: timestamp
  st_mtime :: timestamp

text \<open>
  The three outcomes of \<open>self.md.convert\<close> that \<open>_process_file\<close> tells apart: the text,
  the converter's unsupported-format exception, any other exception (with its text).
\<close>

datatype convert_outcome =
    Converted string
  | UnsupportedFormatException string
  | ConvertException string

text \<open>
  A file as one traversal meets it: \<open>fe_stat = None\<close> when \<open>os.stat\<close> raises,
  \<open>fe_content = None\<close> when opening or reading the file raises.
\<close>

record file_entry =
  fe_path :: path
  fe_stat :: "stat_result option"
  fe_content :: "string option"
  fe_convert :: convert_outcome

record dir_entry =
  de_path :: path
  de_stat :: "stat_result option"

datatype entry =
    FileEntry file_entry
  | DirEntry dir_entry
  | OtherEntry path

text \<open>
  What one call reads besides the file system: \<open>now t k\<close> is the \<open>k\<close>-th reading of
  \<open>datetime.now()\<close> during the call, \<open>store_fault t\<close> the statement at which the store
  raises, if any.
\<close>

record tick =
  now :: "nat \<Rightarrow> timestamp"
  store_fault :: "nat option"

text \<open>The store raises at one of the first \<open>n\<close> statements of the call.\<close>

definition store_raises :: "tick \<Rightarrow> nat \<Rightarrow> bool" where
  "store_raises t n = (case store_fault t of None \<Rightarrow> False | Some k \<Rightarrow> k < n)"

subsection \<open>\<open>_calculate_checksum\<close> and \<open>_process_file\<close>\<close>

text \<open>The digest is a parameter: \<open>md5\<close> maps the content to its hex digest.\<close>

definition calculate_checksum :: "(string \<Rightarrow> string) \<Rightarrow> string option \<Rightarrow> string option" where
  "calculate_checksum md5 content =
    (case content of None \<Rightarrow> None | Some bytes \<Rightarrow> Some (md5 bytes))"

record file_info =
  fi_file_path :: string
  fi_file_name :: string
  fi_file_extension :: string
  fi_file_size :: int
  fi_created_at :: timestamp
  fi_modified_at :: timestamp
  fi_indexed_at :: timestamp
  fi_checksum :: "string option"
  fi_processing_status :: string
  fi_markdown_content :: "string option"
  fi_error_message :: "string option"

definition process_file ::
  "(string \<Rightarrow> string) \<Rightarrow> string set \<Rightarrow> file_entry \<Rightarrow> timestamp \<Rightarrow> file_info option" where
  "process_file md5 supported_formats fe indexed =
    (case fe_stat fe of
       None \<Rightarrow> None
     | Some file_stat \<Rightarrow>
        (let file_ext = file_ext_of (fe_path fe);
             file_info = \<lparr>fi_file_path = path_str (fe_path fe),
                          fi_file_name = path_name (fe_path fe),
                          fi_file_extension = file_ext,
                          fi_file_size = st_size file_stat,
                          fi_created_at = st_ctime file_stat,
                          fi_modified_at = st_mtime file_stat,
                          fi_indexed_at = indexed,
                          fi_checksum = calculate_checksum md5 (fe_content fe),
                          fi_processing_status = ''skipped'',
                          fi_markdown_content = None,
                          fi_error_message = None\<rparr>
         in if file_ext \<in> supported_formats then
              (case fe_convert fe of
                 Converted text_content \<Rightarrow>
                   Some (file_info\<lparr>fi_markdown_content := Some text_content,
                                    fi_processing_status := ''processed''\<rparr>)
               | UnsupportedFormatException e \<Rightarrow>
                   Some (file_info\<lparr>fi_processing_status := ''skipped'',
                                    fi_error_message := Some (''Unsupported format: '' @ e)\<rparr>)
               | ConvertException e \<Rightarrow>
                   Some (file_info\<lparr>fi_processing_status := ''failed'',
                                    fi_error_message := Some e\<rparr>))
            else
              Some (file_info\<lparr>fi_processing_status := ''skipped'',
                               fi_error_message :=
                                 Some (''Unsupported file format: .'' @ file_ext)\<rparr>)))"

subsection \<open>\<open>_save_to_db\<close>\<close>

text \<open>
  \<open>INSERT OR REPLACE INTO files\<close>: the row with the same \<open>file_path\<close> is deleted, the
  new row gets a fresh id, and the columns the statement does not name are NULL.
\<close>

definition new_file_row :: "rowid \<Rightarrow> file_info \<Rightarrow> file_row" where
  "new_file_row rid info =
    \<lparr>f_id = rid,
     file_path = fi_file_path info,
     file_name = fi_file_name info,
     file_extension = fi_file_extension info,
     file_size = fi_file_size info,
     f_created_at = fi_created_at info,
     f_modified_at = fi_modified_at info,
     f_indexed_at = fi_indexed_at info,
     checksum = fi_checksum info,
     markdown_content = fi_markdown_content info,
     content_summary = None,
     processing_status = fi_processing_status info,
     error_message = fi_error_message info,
     last_summary_update = None\<rparr>"

definition insert_or_replace_file :: "file_row list \<Rightarrow> file_info \<Rightarrow> file_row list" where
  "insert_or_replace_file rows info =
    filter (\<lambda>r. file_path r \<noteq> fi_file_path info) rows @
    [new_file_row (next_rowid (map f_id rows)) info]"

text \<open>\<open>SELECT id FROM files WHERE file_path = ?\<close>\<close>

definition select_file_id :: "file_row list \<Rightarrow> string \<Rightarrow> rowid option" where
  "select_file_id rows p = map_option f_id (find (\<lambda>r. file_path r = p) rows)"

text \<open>
  \<open>INSERT INTO processing_queue\<close>: \<open>file_id\<close> is \<open>NOT NULL\<close>, so a sub-select that
  finds no row raises.
\<close>

definition new_queue_row :: "rowid \<Rightarrow> rowid \<Rightarrow> timestamp \<Rightarrow> queue_row" where
  "new_queue_row rid fid created =
    \<lparr>q_id = rid, file_id = fid, priority = 0, status = ''pending'',
     q_created_at = created, started_at = None, completed_at = None,
     q_error_message = None\<rparr>"

definition insert_queue :: "catalog \<Rightarrow> string \<Rightarrow> timestamp \<Rightarrow> error + catalog" where
  "insert_queue s p created =
    (case select_file_id (files s) p of
       None \<Rightarrow> Inl (IntegrityError ''NOT NULL constraint failed: processing_queue.file_id'')
     | Some fid \<Rightarrow>
         Inr (s\<lparr>processing_queue := processing_queue s @
               [new_queue_row (next_rowid (map q_id (processing_queue s))) fid created]\<rparr>))"

text \<open>The \<open>try\<close> block: statement 0 is the upsert, 1 the queue insert, 2 the commit.\<close>

definition save_to_db_try :: "catalog \<Rightarrow> file_info \<Rightarrow> tick \<Rightarrow> error + catalog" where
  "save_to_db_try s info t =
    (case stmt (store_fault t) 0
            (Inr (s\<lparr>files := insert_or_replace_file (files s) info\<rparr>)) of
       Inl e \<Rightarrow> Inl e
     | Inr s1 \<Rightarrow>
        (case (if fi_processing_status info = ''processed''
               then stmt (store_fault t) 1 (insert_queue s1 (fi_file_path info) (now t 1))
               else Inr s1) of
           Inl e \<Rightarrow> Inl e
         | Inr s2 \<Rightarrow> stmt (store_fault t) 2 (Inr s2)))"

text \<open>On any exception the transaction is rolled back: the catalog is as before.\<close>

definition save_to_db :: "catalog \<Rightarrow> file_info \<Rightarrow> tick \<Rightarrow> catalog" where
  "save_to_db s info t =
    (case save_to_db_try s info t of Inl e \<Rightarrow> s | Inr s' \<Rightarrow> s')"

subsection \<open>\<open>_process_directory\<close>\<close>

definition insert_or_replace_dir ::
  "dir_row list \<Rightarrow> path \<Rightarrow> stat_result \<Rightarrow> timestamp \<Rightarrow> dir_row list" where
  "insert_or_replace_dir rows p dir_stat indexed =
    filter (\<lambda>r. dir_path r \<noteq> path_str p) rows @
    [\<lparr>d_id = next_rowid (map d_id rows),
      dir_path = path_str p,
      dir_name = path_name p,
      parent_dir_path = path_str (path_parent p),
      depth = length p,
      d_created_at = st_ctime dir_stat,
      d_modified_at = st_mtime dir_stat,
      d_indexed_at = indexed,
      d_title = None,
      d_status = Some ''active'',
      owner = None,
      last_documented_at = None\<rparr>]"

text \<open>Statement 0 is the upsert, 1 the commit; a failing \<open>os.stat\<close> raises before both.\<close>

definition process_directory :: "catalog \<Rightarrow> dir_entry \<Rightarrow> tick \<Rightarrow> catalog" where
  "process_directory s de t =
    (case de_stat de of
       None \<Rightarrow> s
     | Some dir_stat \<Rightarrow>
        (case stmt (store_fault t) 0
                (Inr (s\<lparr>directories :=
                   insert_or_replace_dir (directories s) (de_path de) dir_stat (now t 0)\<rparr>)) of
           Inl e \<Rightarrow> s
         | Inr s1 \<Rightarrow>
            (case stmt (store_fault t) 1 (Inr s1) of Inl e \<Rightarrow> s | Inr s2 \<Rightarrow> s2)))"

subsection \<open>\<open>index_directory\<close>\<close>

record run_state =
  db :: catalog
  processed :: nat
  skipped :: nat
  failed :: nat

definition index_entry ::
  "(string \<Rightarrow> string) \<Rightarrow> string set \<Rightarrow> run_state \<Rightarrow> entry \<times> tick \<Rightarrow> run_state" where
  "index_entry md5 supported_formats r et =
    (case et of (e, t) \<Rightarrow>
      (case e of
         FileEntry fe \<Rightarrow>
           (case process_file md5 supported_formats fe (now t 0) of
              None \<Rightarrow> r
            | Some file_info \<Rightarrow>
               (let r1 = r\<lparr>db := save_to_db (db r) file_info t\<rparr>
                in if fi_processing_status file_info = ''processed''
                   then r1\<lparr>processed := processed r1 + 1\<rparr>
                   else if fi_processing_status file_info = ''skipped''
                   then r1\<lparr>skipped := skipped r1 + 1\<rparr>
                   else r1\<lparr>failed := failed r1 + 1\<rparr>))
       | DirEntry de \<Rightarrow> r\<lparr>db := process_directory (db r) de t\<rparr>
       | OtherEntry p \<Rightarrow> r))"

fun index_entries ::
  "(string \<Rightarrow> string) \<Rightarrow> string set \<Rightarrow> run_state \<Rightarrow> (entry \<times> tick) list \<Rightarrow> run_state" where
  "index_entries md5 supported_formats r [] = r"
| "index_entries md5 supported_formats r (et # ets) =
    index_entries md5 supported_formats (index_entry md5 supported_formats r et) ets"

text \<open>
  \<open>root_exists\<close> is \<open>root_path.exists()\<close>; \<open>walk\<close> is what \<open>root_path.rglob('*')\<close>
  yields, in its order, with what each step reads.
\<close>

definition index_directory ::
  "(string \<Rightarrow> string) \<Rightarrow> string set \<Rightarrow> catalog \<Rightarrow> bool \<Rightarrow> (entry \<times> tick) list \<Rightarrow> run_state" where
  "index_directory md5 supported_formats s root_exists walk =
    (if \<not> root_exists then \<lparr>db = s, processed = 0, skipped = 0, failed = 0\<rparr>
     else index_entries md5 supported_formats
            \<lparr>db = s, processed = 0, skipped = 0, failed = 0\<rparr> walk)"

section \<open>Directory annotations (create_index.py)\<close>

text \<open>\<open>SELECT id FROM directories WHERE dir_path = ?\<close> and \<open>fetchone\<close>\<close>

definition select_dir_id :: "dir_row list \<Rightarrow> string \<Rightarrow> rowid option" where
  "select_dir_id rows p = map_option d_id (find (\<lambda>r. dir_path r = p) rows)"

subsection \<open>\<open>add_directory_documentation\<close>\<close>

text \<open>\<open>SELECT MAX(version) FROM directory_docs WHERE directory_id = ?\<close>: NULL on no row.\<close>

definition select_max_version :: "doc_row list \<Rightarrow> rowid \<Rightarrow> nat option" where
  "select_max_version docs dir_id =
    (case map version (filter (\<lambda>r. doc_directory_id r = dir_id) docs) of
       [] \<Rightarrow> None
     | v # vs \<Rightarrow> Some (fold max vs v))"

text \<open>\<open>current_version = cursor.fetchone()[0] or 0; next_version = current_version + 1\<close>\<close>

definition next_version_of :: "nat option \<Rightarrow> nat" where
  "next_version_of mv = (case mv of None \<Rightarrow> 0 | Some v \<Rightarrow> v) + 1"

definition clear_current :: "doc_row list \<Rightarrow> rowid \<Rightarrow> doc_row list" where
  "clear_current docs dir_id =
    map (\<lambda>r. if doc_directory_id r = dir_id then r\<lparr>is_current := False\<rparr> else r) docs"

text \<open>
  \<open>INSERT INTO directory_docs\<close>: \<open>title\<close> is \<open>NOT NULL\<close> and
  \<open>(directory_id, version)\<close> is unique; either constraint raises.
\<close>

definition new_doc_row ::
  "rowid \<Rightarrow> rowid \<Rightarrow> nat \<Rightarrow> string \<Rightarrow> string option \<Rightarrow> string option \<Rightarrow> string option \<Rightarrow>
   timestamp \<Rightarrow> string option \<Rightarrow> doc_row" where
  "new_doc_row rid dir_id next_version ttl descr purp guide created created_by =
    \<lparr>doc_id = rid, doc_directory_id = dir_id, version = next_version, title = ttl,
     description = descr, purpose = purp, guidelines = guide, doc_created_at = created,
     doc_created_by = created_by, is_current = True, metadata = None\<rparr>"

definition insert_doc ::
  "doc_row list \<Rightarrow> rowid \<Rightarrow> nat \<Rightarrow> string option \<Rightarrow> string option \<Rightarrow> string option \<Rightarrow>
   string option \<Rightarrow> timestamp \<Rightarrow> string option \<Rightarrow> error + doc_row list" where
  "insert_doc docs dir_id next_version title_arg descr purp guide created created_by =
    (case title_arg of
       None \<Rightarrow> Inl (IntegrityError ''NOT NULL constraint failed: directory_docs.title'')
     | Some ttl \<Rightarrow>
        if (dir_id, next_version) \<in> set (map (\<lambda>r. (doc_directory_id r, version r)) docs)
        then Inl (IntegrityError ''UNIQUE constraint failed: directory_docs'')
        else Inr (docs @
          [new_doc_row (next_rowid (map doc_id docs)) dir_id next_version ttl descr purp
             guide created created_by]))"

definition stamp_documented :: "dir_row list \<Rightarrow> rowid \<Rightarrow> timestamp \<Rightarrow> dir_row list" where
  "stamp_documented dirs dir_id t =
    map (\<lambda>r. if d_id r = dir_id then r\<lparr>last_documented_at := Some t\<rparr> else r) dirs"

text \<open>
  The statements after the directory is found: 1 reads the largest version, 2 clears the
  current flags, 3 inserts the new version, 4 stamps the directory, 5 commits.
\<close>

definition add_documentation_try ::
  "catalog \<Rightarrow> rowid \<Rightarrow> string option \<Rightarrow> string option \<Rightarrow> string option \<Rightarrow> string option \<Rightarrow>
   string option \<Rightarrow> tick \<Rightarrow> error + catalog" where
  "add_documentation_try s dir_id title_arg descr purp guide created_by t =
    (case stmt (store_fault t) 1 (Inr (select_max_version (directory_docs s) dir_id)) of
       Inl e \<Rightarrow> Inl e
     | Inr mv \<Rightarrow>
        (let next_version = next_version_of mv
         in case stmt (store_fault t) 2
                  (Inr (s\<lparr>directory_docs := clear_current (directory_docs s) dir_id\<rparr>)) of
              Inl e \<Rightarrow> Inl e
            | Inr s1 \<Rightarrow>
               (case stmt (store_fault t) 3
                       (case insert_doc (directory_docs s1) dir_id next_version title_arg
                               descr purp guide (now t 0) created_by of
                          Inl e \<Rightarrow> Inl e
                        | Inr docs \<Rightarrow> Inr (s1\<lparr>directory_docs := docs\<rparr>)) of
                  Inl e \<Rightarrow> Inl e
                | Inr s2 \<Rightarrow>
                   (case stmt (store_fault t) 4
                           (Inr (s2\<lparr>directories :=
                              stamp_documented (directories s2) dir_id (now t 1)\<rparr>)) of
                      Inl e \<Rightarrow> Inl e
                    | Inr s3 \<Rightarrow> stmt (store_fault t) 5 (Inr s3)))))"

text \<open>
  The result is the returned boolean and the catalog after the call. Statement 0 is the
  lookup of the directory; no row is the early \<open>return False\<close>, an exception anywhere
  is the rollback and \<open>return False\<close>.
\<close>

definition add_directory_documentation ::
  "catalog \<Rightarrow> string \<Rightarrow> string option \<Rightarrow> string option \<Rightarrow> string option \<Rightarrow> string option \<Rightarrow>
   string option \<Rightarrow> tick \<Rightarrow> bool \<times> catalog" where
  "add_directory_documentation s dir_path_arg title_arg descr purp guide created_by t =
    (case stmt (store_fault t) 0 (Inr (select_dir_id (directories s) dir_path_arg)) of
       Inl e \<Rightarrow> (False, s)
     | Inr None \<Rightarrow> (False, s)
     | Inr (Some dir_id) \<Rightarrow>
        (case add_documentation_try s dir_id title_arg descr purp guide created_by t of
           Inl e \<Rightarrow> (False, s)
         | Inr s' \<Rightarrow> (True, s')))"

subsection \<open>\<open>add_directory_tags\<close>\<close>

text \<open>\<open>INSERT OR IGNORE INTO directory_tags\<close>: \<open>(directory_id, tag_name)\<close> is unique.\<close>

definition insert_or_ignore_tag ::
  "tag_row list \<Rightarrow> rowid \<Rightarrow> string \<Rightarrow> timestamp \<Rightarrow> string option \<Rightarrow> tag_row list" where
  "insert_or_ignore_tag rows dir_id tag created created_by =
    (if (dir_id, tag) \<in> set (map (\<lambda>r. (tag_directory_id r, tag_name r)) rows) then rows
     else rows @ [\<lparr>tag_id = next_rowid (map tag_id rows), tag_directory_id = dir_id,
                    tag_name = tag, tag_created_at = created,
                    tag_created_by = created_by\<rparr>])"

text \<open>The loop over \<open>tags\<close>: the \<open>i\<close>-th tag is statement \<open>i + 1\<close> and reads the clock.\<close>

fun insert_tags ::
  "tick \<Rightarrow> rowid \<Rightarrow> string option \<Rightarrow> nat \<Rightarrow> tag_row list \<Rightarrow> string list \<Rightarrow>
   error + tag_row list" where
  "insert_tags t dir_id created_by i rows [] = Inr rows"
| "insert_tags t dir_id created_by i rows (tag # tags) =
    (case stmt (store_fault t) (Suc i)
            (Inr (insert_or_ignore_tag rows dir_id tag (now t i) created_by)) of
       Inl e \<Rightarrow> Inl e
     | Inr rows' \<Rightarrow> insert_tags t dir_id created_by (Suc i) rows' tags)"

definition add_directory_tags ::
  "catalog \<Rightarrow> string \<Rightarrow> string list \<Rightarrow> string option \<Rightarrow> tick \<Rightarrow> bool \<times> catalog" where
  "add_directory_tags s dir_path_arg tags created_by t =
    (case stmt (store_fault t) 0 (Inr (select_dir_id (directories s) dir_path_arg)) of
       Inl e \<Rightarrow> (False, s)
     | Inr None \<Rightarrow> (False, s)
     | Inr (Some dir_id) \<Rightarrow>
        (case insert_tags t dir_id created_by 0 (directory_tags s) tags of
           Inl e \<Rightarrow> (False, s)
         | Inr rows \<Rightarrow>
            (case stmt (store_fault t) (Suc (length tags))
                    (Inr (s\<lparr>directory_tags := rows\<rparr>)) of
               Inl e \<Rightarrow> (False, s)
             | Inr s' \<Rightarrow> (True, s'))))"

subsection \<open>\<open>add_directory_relation\<close>\<close>

text \<open>
  \<open>INSERT INTO directory_relations ... SELECT d1.id, d2.id ... FROM directories d1,
  directories d2 WHERE d1.dir_path = ? AND d2.dir_path = ?\<close>: one row for every pair of
  the join; \<open>relation_type\<close> is \<open>NOT NULL\<close>, which raises only when a row is inserted.
\<close>

definition relation_pairs :: "dir_row list \<Rightarrow> string \<Rightarrow> string \<Rightarrow> (rowid \<times> rowid) list" where
  "relation_pairs dirs source_path target_path =
    concat (map (\<lambda>d1. map (\<lambda>d2. (d_id d1, d_id d2))
                          (filter (\<lambda>r. dir_path r = target_path) dirs))
                (filter (\<lambda>r. dir_path r = source_path) dirs))"

definition insert_relation ::
  "string \<Rightarrow> string option \<Rightarrow> timestamp \<Rightarrow> rowid \<times> rowid \<Rightarrow> relation_row list \<Rightarrow>
   relation_row list" where
  "insert_relation rtype descr created pr rows =
    rows @ [\<lparr>rel_id = next_rowid (map rel_id rows), source_dir_id = fst pr,
              target_dir_id = snd pr, relation_type = rtype, rel_description = descr,
              rel_created_at = created\<rparr>]"

definition insert_select_relations ::
  "catalog \<Rightarrow> string \<Rightarrow> string \<Rightarrow> string option \<Rightarrow> string option \<Rightarrow> timestamp \<Rightarrow>
   error + catalog" where
  "insert_select_relations s source_path target_path rtype descr created =
    (let pairs = relation_pairs (directories s) source_path target_path
     in if pairs = [] then Inr s
        else (case rtype of
                None \<Rightarrow> Inl (IntegrityError
                         ''NOT NULL constraint failed: directory_relations.relation_type'')
              | Some rt \<Rightarrow>
                  Inr (s\<lparr>directory_relations :=
                         fold (insert_relation rt descr created) pairs
                              (directory_relations s)\<rparr>)))"

text \<open>Statement 0 is the insert, 1 the commit.\<close>

definition add_directory_relation ::
  "catalog \<Rightarrow> string \<Rightarrow> string \<Rightarrow> string option \<Rightarrow> string option \<Rightarrow> tick \<Rightarrow> bool \<times> catalog" where
  "add_directory_relation s source_path target_path rtype descr t =
    (case stmt (store_fault t) 0
            (insert_select_relations s source_path target_path rtype descr (now t 0)) of
       Inl e \<Rightarrow> (False, s)
     | Inr s1 \<Rightarrow>
        (case stmt (store_fault t) 1 (Inr s1) of
           Inl e \<Rightarrow> (False, s)
         | Inr s2 \<Rightarrow> (True, s2)))"

section \<open>Queries used to state the properties\<close>

text \<open>\<open>SELECT * FROM files WHERE file_path = ?\<close>\<close>

definition select_file :: "catalog \<Rightarrow> string \<Rightarrow> file_row option" where
  "select_file s p = find (\<lambda>r. file_path r = p) (files s)"

text \<open>\<open>SELECT * FROM directories WHERE dir_path = ?\<close>\<close>

definition select_dir :: "catalog \<Rightarrow> string \<Rightarrow> dir_row option" where
  "select_dir s p = find (\<lambda>r. dir_path r = p) (directories s)"

text \<open>\<open>SELECT * FROM directory_docs WHERE directory_id = ?\<close>, in rowid order\<close>

definition docs_of :: "catalog \<Rightarrow> rowid \<Rightarrow> doc_row list" where
  "docs_of s dir_id = filter (\<lambda>r. doc_directory_id r = dir_id) (directory_docs s)"

text \<open>\<open>SELECT * FROM directory_tags WHERE directory_id = ? AND tag_name = ?\<close>\<close>

definition tags_of :: "catalog \<Rightarrow> rowid \<Rightarrow> string \<Rightarrow> tag_row list" where
  "tags_of s dir_id tag =
    filter (\<lambda>r. tag_directory_id r = dir_id \<and> tag_name r = tag) (directory_tags s)"

text \<open>
  \<open>SELECT q.* FROM processing_queue q JOIN files f ON q.file_id = f.id
  WHERE f.file_path = ?\<close>: the queue rows that reference the file row of a path
\<close>

definition queue_rows_of_path :: "catalog \<Rightarrow> string \<Rightarrow> queue_row list" where
  "queue_rows_of_path s p =
    filter (\<lambda>q. file_id q \<in> set (map f_id (filter (\<lambda>r. file_path r = p) (files s))))
      (processing_queue s)"

text \<open>The unique constraints of the schema that the properties rely on.\<close>

definition unique_paths :: "catalog \<Rightarrow> bool" where
  "unique_paths s \<longleftrightarrow>
    distinct (map file_path (files s)) \<and> distinct (map dir_path (directories s))"

definition unique_tags :: "catalog \<Rightarrow> bool" where
  "unique_tags s \<longleftrightarrow>
    distinct (map (\<lambda>r. (tag_directory_id r, tag_name r)) (directory_tags s))"

text \<open>Successive calls of \<open>add_directory_documentation\<close> for one path.\<close>

record doc_call =
  dc_title :: "string option"
  dc_description :: "string option"
  dc_purpose :: "string option"
  dc_guidelines :: "string option"
  dc_created_by :: "string option"
  dc_tick :: tick

definition add_documentation_call :: "catalog \<Rightarrow> string \<Rightarrow> doc_call \<Rightarrow> bool \<times> catalog" where
  "add_documentation_call s p c =
    add_directory_documentation s p (dc_title c) (dc_description c) (dc_purpose c)
      (dc_guidelines c) (dc_created_by c) (dc_tick c)"

fun add_documentation_calls :: "catalog \<Rightarrow> string \<Rightarrow> doc_call list \<Rightarrow> bool list \<times> catalog" where
  "add_documentation_calls s p [] = ([], s)"
| "add_documentation_calls s p (c # cs) =
    (case add_documentation_call s p c of
       (ok, s1) \<Rightarrow>
         (case add_documentation_calls s1 p cs of (oks, s2) \<Rightarrow> (ok # oks, s2)))"

text \<open>Successive runs of \<open>index_directory\<close> over an existing root, one walk each.\<close>

fun index_runs ::
  "(string \<Rightarrow> string) \<Rightarrow> string set \<Rightarrow> catalog \<Rightarrow> (entry \<times> tick) list list \<Rightarrow> catalog" where
  "index_runs md5 supported_formats s [] = s"
| "index_runs md5 supported_formats s (walk # walks) =
    index_runs md5 supported_formats
      (db (index_directory md5 supported_formats s True walk)) walks"

text \<open>
  The queue rows that successive saves of one processed file append when the queue's next
  id is \<open>q\<close> and the file table's next id is \<open>f\<close>: one row for every save.
\<close>

fun queued_rows :: "rowid \<Rightarrow> rowid \<Rightarrow> tick list \<Rightarrow> queue_row list" where
  "queued_rows q f [] = []"
| "queued_rows q f (t # ts) = new_queue_row q f (now t 1) # queued_rows (Suc q) (Suc f) ts"

text \<open>\<open>SELECT file_path, checksum FROM files\<close>, as a map from path to stored checksum\<close>

definition file_checksums :: "catalog \<Rightarrow> (string \<rightharpoonup> string option)" where
  "file_checksums s = map_of (map (\<lambda>r. (file_path r, checksum r)) (files s))"

text \<open>
  What a walk stores when no save is interrupted: the checksum under each path of a file
  whose \<open>os.stat\<close> succeeds (a later entry for the same path wins), and the paths of the
  directories whose \<open>os.stat\<close> succeeds.
\<close>

definition entry_checksum :: "(string \<Rightarrow> string) \<Rightarrow> entry \<Rightarrow> (string \<rightharpoonup> string option)" where
  "entry_checksum md5 e =
    (case e of
       FileEntry fe \<Rightarrow>
         (if fe_stat fe = None then Map.empty
          else [path_str (fe_path fe) \<mapsto> calculate_checksum md5 (fe_content fe)])
     | DirEntry de \<Rightarrow> Map.empty
     | OtherEntry p \<Rightarrow> Map.empty)"

fun saved_checksums :: "(string \<Rightarrow> string) \<Rightarrow> entry list \<Rightarrow> (string \<rightharpoonup> string option)" where
  "saved_checksums md5 [] = Map.empty"
| "saved_checksums md5 (e # es) = entry_checksum md5 e ++ saved_checksums md5 es"

definition entry_dir_path :: "entry \<Rightarrow> string set" where
  "entry_dir_path e =
    (case e of
       FileEntry fe \<Rightarrow> {}
     | DirEntry de \<Rightarrow> (if de_stat de = None then {} else {path_str (de_path de)})
     | OtherEntry p \<Rightarrow> {})"

section \<open>Example inputs\<close>

text \<open>
  A small tree used to run the definitions: \<open>a.txt\<close> is enabled and converts,
  \<open>b.xyz\<close> is not in the registry, \<open>c.txt\<close> vanished before \<open>os.stat\<close>, \<open>d.txt\<close>
  cannot be read. \<open>ex_md5\<close> stands in for the digest; every theorem below holds for
  any digest function.
\<close>

definition ex_md5 :: "string \<Rightarrow> string" where
  "ex_md5 bytes = ''md5:'' @ bytes"

definition ex_tick :: tick where
  "ex_tick = \<lparr>now = (\<lambda>k. 100 + int k), store_fault = None\<rparr>"

definition ex_stat :: stat_result where
  "ex_stat = \<lparr>st_size = 3, st_ctime = 10, st_mtime = 20\<rparr>"

definition ex_file_a :: file_entry where
  "ex_file_a = \<lparr>fe_path = [''/'', ''root'', ''a.txt''], fe_stat = Some ex_stat,
                 fe_content = Some ''abc'', fe_convert = Converted ''abc''\<rparr>"

definition ex_file_b :: file_entry where
  "ex_file_b = \<lparr>fe_path = [''/'', ''root'', ''b.xyz''], fe_stat = Some ex_stat,
                 fe_content = Some ''abc'', fe_convert = Converted ''abc''\<rparr>"

definition ex_file_c :: file_entry where
  "ex_file_c = \<lparr>fe_path = [''/'', ''root'', ''c.txt''], fe_stat = None,
                 fe_content = None, fe_convert = Converted ''abc''\<rparr>"

definition ex_file_d :: file_entry where
  "ex_file_d = \<lparr>fe_path = [''/'', ''root'', ''d.txt''], fe_stat = Some ex_stat,
                 fe_content = None, fe_convert = Converted ''abc''\<rparr>"

definition ex_dir :: dir_entry where
  "ex_dir = \<lparr>de_path = [''/'', ''root'', ''docs''], de_stat = Some ex_stat\<rparr>"

definition ex_catalog :: catalog where
  "ex_catalog = init_database empty_catalog"

definition ex_formats :: "string set" where
  "ex_formats = indexer_get_supported_formats ex_catalog"

definition ex_walk :: "(entry \<times> tick) list" where
  "ex_walk = [(FileEntry ex_file_a, ex_tick), (FileEntry ex_file_b, ex_tick)]"

definition ex_info_b :: file_info where
  "ex_info_b = \<lparr>fi_file_path = ''/root/b.xyz'', fi_file_name = ''b.xyz'',
          fi_file_extension = ''xyz'', fi_file_size = 3, fi_created_at = 10,
          fi_modified_at = 20, fi_indexed_at = 100, fi_checksum = Some ''md5:abc'',
          fi_processing_status = ''skipped'', fi_markdown_content = None,
          fi_error_message = Some ''Unsupported file format: .xyz''\<rparr>"

definition ex_info_d :: file_info where
  "ex_info_d = \<lparr>fi_file_path = ''/root/d.txt'', fi_file_name = ''d.txt'',
          fi_file_extension = ''txt'', fi_file_size = 3, fi_created_at = 10,
          fi_modified_at = 20, fi_indexed_at = 100, fi_checksum = None,
          fi_processing_status = ''processed'', fi_markdown_content = Some ''abc'',
          fi_error_message = None\<rparr>"

definition ex_dir_row :: dir_row where
  "ex_dir_row = \<lparr>d_id = 1, dir_path = ''/root/docs'', dir_name = ''docs'',
     parent_dir_path = ''/root'', depth = 3, d_created_at = 10, d_modified_at = 20,
     d_indexed_at = 100, d_title = None, d_status = Some ''active'', owner = None,
     last_documented_at = None\<rparr>"

definition ex_catalog_dir :: catalog where
  "ex_catalog_dir = ex_catalog\<lparr>directories := [ex_dir_row]\<rparr>"

definition ex_run0 :: run_state where
  "ex_run0 = \<lparr>db = ex_catalog, processed = 0, skipped = 0, failed = 0\<rparr>"

definition ex_call_1 :: doc_call where
  "ex_call_1 = \<lparr>dc_title = Some ''Docs'', dc_description = None, dc_purpose = None,
     dc_guidelines = None, dc_created_by = Some ''system'', dc_tick = ex_tick\<rparr>"

definition ex_call_2 :: doc_call where
  "ex_call_2 = \<lparr>dc_title = Some ''Docs, revised'', dc_description = Some ''more'',
     dc_purpose = None, dc_guidelines = None, dc_created_by = Some ''system'',
     dc_tick = \<lparr>now = (\<lambda>k. 200 + int k), store_fault = None\<rparr>\<rparr>"

definition ex_tick_later :: tick where
  "ex_tick_later = \<lparr>now = (\<lambda>k. 200 + int k), store_fault = None\<rparr>"

definition ex_tree :: "entry list" where
  "ex_tree = [DirEntry ex_dir, FileEntry ex_file_a, FileEntry ex_file_b,
              FileEntry ex_file_c, FileEntry ex_file_d]"

definition ex_walk_first :: "(entry \<times> tick) list" where
  "ex_walk_first = map (\<lambda>e. (e, ex_tick)) ex_tree"

definition ex_walk_second :: "(entry \<times> tick) list" where
  "ex_walk_second = map (\<lambda>e. (e, ex_tick_later)) ex_tree"

section \<open>Properties\<close>

subsection \<open>Statements and the store\<close>

lemma stmt_no_fault [simp]: "stmt None k r = r"
  by (simp add: stmt_def)

lemma file_path_new_file_row [simp]: "file_path (new_file_row rid info) = fi_file_path info"
  by (simp add: new_file_row_def)

lemma f_id_new_file_row [simp]: "f_id (new_file_row rid info) = rid"
  by (simp add: new_file_row_def)

lemma find_filter_append_new:
  "find (\<lambda>r. file_path r = p) (filter (\<lambda>r. file_path r \<noteq> p) rows @ [x]) =
     (if file_path x = p then Some x else None)"
  by (induction rows) auto

lemma find_insert_or_replace_file:
  "find (\<lambda>r. file_path r = fi_file_path info) (insert_or_replace_file rows info) =
     Some (new_file_row (next_rowid (map f_id rows)) info)"
  by (simp add: insert_or_replace_file_def find_filter_append_new)

lemma select_file_id_insert_or_replace:
  "select_file_id (insert_or_replace_file rows info) (fi_file_path info) =
     Some (next_rowid (map f_id rows))"
  by (simp add: select_file_id_def find_insert_or_replace_file)

text \<open>A save that the store does not interrupt: the upsert, and the queue row if processed.\<close>

lemma save_to_db_no_fault:
  assumes "store_fault t = None"
  shows "save_to_db s info t =
    (if fi_processing_status info = ''processed''
     then s\<lparr>files := insert_or_replace_file (files s) info,
            processing_queue := processing_queue s @
              [new_queue_row (next_rowid (map q_id (processing_queue s)))
                 (next_rowid (map f_id (files s))) (now t 1)]\<rparr>
     else s\<lparr>files := insert_or_replace_file (files s) info\<rparr>)"
  using assms
  by (simp add: save_to_db_def save_to_db_try_def insert_queue_def
      select_file_id_insert_or_replace)

lemma find_files_save_to_db:
  assumes "store_fault t = None"
  shows "find (\<lambda>r. file_path r = fi_file_path info) (files (save_to_db s info t)) =
    Some (new_file_row (next_rowid (map f_id (files s))) info)"
  by (simp add: save_to_db_no_fault [OF assms] find_insert_or_replace_file)

subsection \<open>The outcomes of \<open>_process_file\<close>\<close>

lemma process_file_stat_fails:
  "fe_stat fe = None \<Longrightarrow> process_file md5 supported_formats fe ts = None"
  by (simp add: process_file_def)

lemma process_file_not_enabled:
  assumes "fe_stat fe = Some st" and "file_ext_of (fe_path fe) \<notin> supported_formats"
  shows "process_file md5 supported_formats fe ts =
    Some \<lparr>fi_file_path = path_str (fe_path fe),
          fi_file_name = path_name (fe_path fe),
          fi_file_extension = file_ext_of (fe_path fe),
          fi_file_size = st_size st,
          fi_created_at = st_ctime st,
          fi_modified_at = st_mtime st,
          fi_indexed_at = ts,
          fi_checksum = calculate_checksum md5 (fe_content fe),
          fi_processing_status = ''skipped'',
          fi_markdown_content = None,
          fi_error_message = Some (''Unsupported file format: .'' @ file_ext_of (fe_path fe))\<rparr>"
  using assms by (simp add: process_file_def Let_def)

lemma process_file_converted:
  assumes "fe_stat fe = Some st" and "file_ext_of (fe_path fe) \<in> supported_formats"
    and "fe_convert fe = Converted txt"
  shows "process_file md5 supported_formats fe ts =
    Some \<lparr>fi_file_path = path_str (fe_path fe),
          fi_file_name = path_name (fe_path fe),
          fi_file_extension = file_ext_of (fe_path fe),
          fi_file_size = st_size st,
          fi_created_at = st_ctime st,
          fi_modified_at = st_mtime st,
          fi_indexed_at = ts,
          fi_checksum = calculate_checksum md5 (fe_content fe),
          fi_processing_status = ''processed'',
          fi_markdown_content = Some txt,
          fi_error_message = None\<rparr>"
  using assms by (simp add: process_file_def Let_def)

lemma process_file_Some_iff:
  "(\<exists>info. process_file md5 supported_formats fe ts = Some info) \<longleftrightarrow> fe_stat fe \<noteq> None"
  by (auto simp: process_file_def Let_def split: option.splits convert_outcome.splits)

lemma process_file_path:
  "process_file md5 supported_formats fe ts = Some info \<Longrightarrow>
     fi_file_path info = path_str (fe_path fe)"
  by (auto simp: process_file_def Let_def split: option.splits convert_outcome.splits if_splits)

lemma process_file_checksum:
  "process_file md5 supported_formats fe ts = Some info \<Longrightarrow>
     fi_checksum info = calculate_checksum md5 (fe_content fe)"
  by (auto simp: process_file_def Let_def split: option.splits convert_outcome.splits if_splits)

subsection \<open>The example inputs, evaluated\<close>

lemma ex_enabled_extensions:
  "map extension (filter is_enabled (file_formats ex_catalog)) =
    [''pdf'', ''pptx'', ''ppt'', ''docx'', ''doc'', ''xlsx'', ''xls'', ''jpg'',
     ''jpeg'', ''png'', ''gif'', ''mp3'', ''wav'', ''html'', ''htm'', ''csv'', ''json'', ''xml'',
     ''zip'', ''txt'']"
  by code_simp

lemma ex_formats_eq:
  "ex_formats = set [''pdf'', ''pptx'', ''ppt'', ''docx'', ''doc'', ''xlsx'', ''xls'', ''jpg'',
     ''jpeg'', ''png'', ''gif'', ''mp3'', ''wav'', ''html'', ''htm'', ''csv'', ''json'', ''xml'',
     ''zip'', ''txt'']"
  unfolding ex_formats_def indexer_get_supported_formats_def ex_enabled_extensions ..

lemma ex_ext_a: "file_ext_of (fe_path ex_file_a) = ''txt''"
  by code_simp

lemma ex_ext_b: "file_ext_of (fe_path ex_file_b) = ''xyz''"
  by code_simp

lemma ex_ext_d: "file_ext_of (fe_path ex_file_d) = ''txt''"
  by code_simp

lemma ex_path_b: "path_str (fe_path ex_file_b) = ''/root/b.xyz''"
  by (simp add: ex_file_b_def path_str_def)

lemma ex_b_not_enabled: "file_ext_of (fe_path ex_file_b) \<notin> ex_formats"
  by (simp add: ex_ext_b ex_formats_eq)

lemma ex_process_file_b:
  "process_file ex_md5 ex_formats ex_file_b 100 =
    Some \<lparr>fi_file_path = ''/root/b.xyz'', fi_file_name = ''b.xyz'',
          fi_file_extension = ''xyz'', fi_file_size = 3, fi_created_at = 10,
          fi_modified_at = 20, fi_indexed_at = 100, fi_checksum = Some ''md5:abc'',
          fi_processing_status = ''skipped'', fi_markdown_content = None,
          fi_error_message = Some ''Unsupported file format: .xyz''\<rparr>"
proof -
  have st: "fe_stat ex_file_b = Some ex_stat"
    by (simp add: ex_file_b_def)
  show ?thesis
    unfolding process_file_not_enabled [OF st ex_b_not_enabled] ex_ext_b ex_path_b
    by (simp add: ex_file_b_def ex_stat_def path_name_def calculate_checksum_def ex_md5_def)
qed

subsection \<open>Files outside the enabled formats\<close>

text \<open>
  C7. A file whose extension (lower-cased, leading dot stripped) is not in the set of
  enabled formats loaded at the start of the run: whenever \<open>_process_file\<close> yields a
  record, its status is \<open>skipped\<close>, its extracted text is null and its error detail is
  \<open>Unsupported file format: .\<close> followed by the extension; the row that a save
  stores under the file's path carries exactly these values.
\<close>

theorem C7_not_enabled_skipped:
  assumes "file_ext_of (fe_path fe) \<notin> supported_formats"
    and "process_file md5 supported_formats fe ts = Some info"
    and "store_fault t = None"
  shows "fi_processing_status info = ''skipped'' \<and>
         fi_markdown_content info = None \<and>
         fi_error_message info =
           Some (''Unsupported file format: .'' @ file_ext_of (fe_path fe)) \<and>
         find (\<lambda>r. file_path r = path_str (fe_path fe)) (files (save_to_db s info t)) =
           Some (new_file_row (next_rowid (map f_id (files s))) info) \<and>
         processing_status (new_file_row (next_rowid (map f_id (files s))) info) = ''skipped'' \<and>
         markdown_content (new_file_row (next_rowid (map f_id (files s))) info) = None \<and>
         error_message (new_file_row (next_rowid (map f_id (files s))) info) =
           Some (''Unsupported file format: .'' @ file_ext_of (fe_path fe)) \<and>
         processing_queue (save_to_db s info t) = processing_queue s"
proof -
  from assms(2) obtain st where st: "fe_stat fe = Some st"
    using process_file_Some_iff [of md5 supported_formats fe ts] by auto
  have fields: "fi_processing_status info = ''skipped''" "fi_markdown_content info = None"
    "fi_error_message info = Some (''Unsupported file format: .'' @ file_ext_of (fe_path fe))"
    "fi_file_path info = path_str (fe_path fe)"
    using process_file_not_enabled [OF st assms(1), of md5 ts] assms(2) by auto
  have stored: "find (\<lambda>r. file_path r = path_str (fe_path fe)) (files (save_to_db s info t)) =
        Some (new_file_row (next_rowid (map f_id (files s))) info)"
    using find_files_save_to_db [OF assms(3), of info s] fields(4) by simp
  have queue: "processing_queue (save_to_db s info t) = processing_queue s"
    by (simp add: save_to_db_no_fault [OF assms(3)] fields(1))
  show ?thesis
    using fields(1-3) stored queue by (simp add: new_file_row_def)
qed

theorem C7_not_enabled_skipped_witness:
  "file_ext_of (fe_path ex_file_b) \<notin> ex_formats \<and>
   process_file ex_md5 ex_formats ex_file_b 100 = Some ex_info_b \<and>
   store_fault ex_tick = None \<and>
   fi_processing_status ex_info_b = ''skipped'' \<and>
   fi_markdown_content ex_info_b = None \<and>
   fi_error_message ex_info_b =
     Some (''Unsupported file format: .'' @ file_ext_of (fe_path ex_file_b)) \<and>
   find (\<lambda>r. file_path r = path_str (fe_path ex_file_b))
     (files (save_to_db ex_catalog ex_info_b ex_tick)) =
     Some (new_file_row (next_rowid (map f_id (files ex_catalog))) ex_info_b) \<and>
   processing_status (new_file_row (next_rowid (map f_id (files ex_catalog))) ex_info_b) =
     ''skipped'' \<and>
   markdown_content (new_file_row (next_rowid (map f_id (files ex_catalog))) ex_info_b) = None \<and>
   error_message (new_file_row (next_rowid (map f_id (files ex_catalog))) ex_info_b) =
     Some (''Unsupported file format: .'' @ file_ext_of (fe_path ex_file_b)) \<and>
   processing_queue (save_to_db ex_catalog ex_info_b ex_tick) = processing_queue ex_catalog"
proof -
  have h3: "store_fault ex_tick = None"
    by (simp add: ex_tick_def)
  have h2: "process_file ex_md5 ex_formats ex_file_b 100 = Some ex_info_b"
    by (simp add: ex_process_file_b ex_info_b_def)
  show ?thesis
    by (rule conjI [OF ex_b_not_enabled conjI [OF h2 conjI [OF h3
          C7_not_enabled_skipped [OF ex_b_not_enabled h2 h3]]]])
qed

subsection \<open>A file that cannot be read\<close>

lemma ex_catalog_dir_indexed:
  "process_directory ex_catalog ex_dir ex_tick = ex_catalog_dir"
  by code_simp

lemma db_index_entry_file:
  "process_file md5 supported_formats fe (now t 0) = Some info \<Longrightarrow>
     db (index_entry md5 supported_formats r (FileEntry fe, t)) = save_to_db (db r) info t"
  by (simp add: index_entry_def Let_def)

lemma index_entry_stat_fails:
  "fe_stat fe = None \<Longrightarrow> index_entry md5 supported_formats r (FileEntry fe, t) = r"
  by (simp add: index_entry_def process_file_stat_fails)

lemma select_file_save_to_db:
  assumes "store_fault t = None"
  shows "select_file (save_to_db s info t) (fi_file_path info) =
    Some (new_file_row (next_rowid (map f_id (files s))) info)"
  unfolding select_file_def by (rule find_files_save_to_db [OF assms])

text \<open>
  C10. A failure of the content read during checksum computation does not change the
  processing outcome: when \<open>os.stat\<close> succeeds, the read for the checksum fails, the
  extension is enabled and the conversion succeeds, the record has status \<open>processed\<close>
  and a null checksum, and so has the row that the run stores under the file's path.
\<close>

theorem C10_unreadable_processed:
  assumes "fe_stat fe = Some st" and "fe_content fe = None"
    and "file_ext_of (fe_path fe) \<in> supported_formats"
    and "fe_convert fe = Converted txt"
    and "store_fault t = None"
  shows "\<exists>info row.
           process_file md5 supported_formats fe (now t 0) = Some info \<and>
           fi_processing_status info = ''processed'' \<and>
           fi_checksum info = None \<and>
           select_file (db (index_entry md5 supported_formats r (FileEntry fe, t)))
             (path_str (fe_path fe)) = Some row \<and>
           processing_status row = ''processed'' \<and>
           checksum row = None \<and>
           markdown_content row = Some txt"
proof -
  let ?info = "\<lparr>fi_file_path = path_str (fe_path fe),
          fi_file_name = path_name (fe_path fe),
          fi_file_extension = file_ext_of (fe_path fe),
          fi_file_size = st_size st,
          fi_created_at = st_ctime st,
          fi_modified_at = st_mtime st,
          fi_indexed_at = now t 0,
          fi_checksum = calculate_checksum md5 (fe_content fe),
          fi_processing_status = ''processed'',
          fi_markdown_content = Some txt,
          fi_error_message = None\<rparr>"
  let ?row = "new_file_row (next_rowid (map f_id (files (db r)))) ?info"
  have p: "process_file md5 supported_formats fe (now t 0) = Some ?info"
    by (rule process_file_converted [OF assms(1) assms(3) assms(4)])
  have cs: "fi_checksum ?info = None"
    by (simp add: calculate_checksum_def assms(2))
  have sel: "select_file (db (index_entry md5 supported_formats r (FileEntry fe, t)))
             (path_str (fe_path fe)) = Some ?row"
    using select_file_save_to_db [OF assms(5), of "db r" ?info]
    by (simp add: db_index_entry_file [OF p])
  have row: "processing_status ?row = ''processed''" "checksum ?row = None"
    "markdown_content ?row = Some txt"
    using cs by (simp_all add: new_file_row_def)
  show ?thesis
    using p cs sel row by (intro exI [of _ ?info] exI [of _ ?row]) simp
qed

lemma ex_d_enabled: "file_ext_of (fe_path ex_file_d) \<in> ex_formats"
  by (simp add: ex_ext_d ex_formats_eq)

theorem C10_unreadable_processed_witness:
  "fe_stat ex_file_d = Some ex_stat \<and> fe_content ex_file_d = None \<and>
   file_ext_of (fe_path ex_file_d) \<in> ex_formats \<and>
   fe_convert ex_file_d = Converted ''abc'' \<and>
   store_fault ex_tick = None \<and>
   (\<exists>info row.
      process_file ex_md5 ex_formats ex_file_d (now ex_tick 0) = Some info \<and>
      fi_processing_status info = ''processed'' \<and>
      fi_checksum info = None \<and>
      select_file (db (index_entry ex_md5 ex_formats ex_run0 (FileEntry ex_file_d, ex_tick)))
        (path_str (fe_path ex_file_d)) = Some row \<and>
      processing_status row = ''processed'' \<and>
      checksum row = None \<and>
      markdown_content row = Some ''abc'')"
proof -
  have h1: "fe_stat ex_file_d = Some ex_stat" and h2: "fe_content ex_file_d = None"
    and h4: "fe_convert ex_file_d = Converted ''abc''"
    by (simp_all add: ex_file_d_def)
  have h5: "store_fault ex_tick = None"
    by (simp add: ex_tick_def)
  show ?thesis
    by (rule conjI [OF h1 conjI [OF h2 conjI [OF ex_d_enabled conjI [OF h4 conjI [OF h5
          C10_unreadable_processed [OF h1 h2 ex_d_enabled h4 h5]]]]]])
qed

subsection \<open>A file whose \<open>os.stat\<close> fails\<close>

text \<open>
  C3 as stated says that a file whose \<open>os.stat\<close> fails is still recorded, with a
  \<open>failed\<close> record. It is not: a run over the single entry \<open>c.txt\<close>, whose
  \<open>os.stat\<close> fails, leaves the files table empty and counts no failure.
\<close>

theorem C3_stat_failure_recorded_counterexample:
  "fe_stat ex_file_c = None \<and>
   files (db (index_directory ex_md5 ex_formats ex_catalog True
                [(FileEntry ex_file_c, ex_tick)])) = [] \<and>
   failed (index_directory ex_md5 ex_formats ex_catalog True
             [(FileEntry ex_file_c, ex_tick)]) = 0"
  by (simp add: index_directory_def index_entry_def process_file_def ex_file_c_def
      ex_catalog_def init_database_def empty_catalog_def)

text \<open>
  C3, amended. A file whose \<open>os.stat\<close> fails yields no record: \<open>_process_file\<close>
  returns \<open>None\<close> and the step leaves the catalog and the three counts as they were.
  A file whose \<open>os.stat\<close> succeeds and whose content cannot be read is recorded, with
  the name, extension, size and timestamps that \<open>os.stat\<close> and the path give and a null
  checksum.
\<close>

theorem C3_stat_failure_dropped:
  assumes "fe_stat fe1 = None"
    and "fe_stat fe2 = Some st" and "fe_content fe2 = None" and "store_fault t2 = None"
  shows "process_file md5 supported_formats fe1 (now t1 0) = None \<and>
         index_entry md5 supported_formats r1 (FileEntry fe1, t1) = r1 \<and>
         (\<exists>info row.
            process_file md5 supported_formats fe2 (now t2 0) = Some info \<and>
            fi_checksum info = None \<and>
            select_file (db (index_entry md5 supported_formats r2 (FileEntry fe2, t2)))
              (path_str (fe_path fe2)) = Some row \<and>
            row = new_file_row (next_rowid (map f_id (files (db r2)))) info \<and>
            checksum row = None \<and>
            file_name row = path_name (fe_path fe2) \<and>
            file_extension row = file_ext_of (fe_path fe2) \<and>
            file_size row = st_size st \<and>
            f_created_at row = st_ctime st \<and>
            f_modified_at row = st_mtime st)"
proof -
  obtain info where p: "process_file md5 supported_formats fe2 (now t2 0) = Some info"
    using process_file_Some_iff [of md5 supported_formats fe2 "now t2 0"] assms(2) by auto
  have cs: "fi_checksum info = None"
    using process_file_checksum [OF p] assms(3) by (simp add: calculate_checksum_def)
  have path: "fi_file_path info = path_str (fe_path fe2)"
    by (rule process_file_path [OF p])
  have meta: "fi_file_name info = path_name (fe_path fe2)"
    "fi_file_extension info = file_ext_of (fe_path fe2)"
    "fi_file_size info = st_size st" "fi_created_at info = st_ctime st"
    "fi_modified_at info = st_mtime st"
    using p assms(2)
    by (auto simp: process_file_def Let_def split: convert_outcome.splits if_splits)
  let ?row = "new_file_row (next_rowid (map f_id (files (db r2)))) info"
  have sel: "select_file (db (index_entry md5 supported_formats r2 (FileEntry fe2, t2)))
              (path_str (fe_path fe2)) = Some ?row"
    using select_file_save_to_db [OF assms(4), of "db r2" info]
    by (simp add: db_index_entry_file [OF p] path)
  have row: "checksum ?row = None" "file_name ?row = path_name (fe_path fe2)"
    "file_extension ?row = file_ext_of (fe_path fe2)" "file_size ?row = st_size st"
    "f_created_at ?row = st_ctime st" "f_modified_at ?row = st_mtime st"
    using cs meta by (simp_all add: new_file_row_def)
  have second: "\<exists>info row.
            process_file md5 supported_formats fe2 (now t2 0) = Some info \<and>
            fi_checksum info = None \<and>
            select_file (db (index_entry md5 supported_formats r2 (FileEntry fe2, t2)))
              (path_str (fe_path fe2)) = Some row \<and>
            row = new_file_row (next_rowid (map f_id (files (db r2)))) info \<and>
            checksum row = None \<and>
            file_name row = path_name (fe_path fe2) \<and>
            file_extension row = file_ext_of (fe_path fe2) \<and>
            file_size row = st_size st \<and>
            f_created_at row = st_ctime st \<and>
            f_modified_at row = st_mtime st"
    using p cs sel row by (intro exI [of _ info] exI [of _ ?row]) simp
  show ?thesis
    using process_file_stat_fails [OF assms(1)] index_entry_stat_fails [OF assms(1)] second
    by blast
qed

theorem C3_stat_failure_dropped_witness:
  "fe_stat ex_file_c = None \<and>
   fe_stat ex_file_d = Some ex_stat \<and> fe_content ex_file_d = None \<and>
   store_fault ex_tick = None \<and>
   process_file ex_md5 ex_formats ex_file_c (now ex_tick 0) = None \<and>
   index_entry ex_md5 ex_formats ex_run0 (FileEntry ex_file_c, ex_tick) = ex_run0 \<and>
   (\<exists>info row.
      process_file ex_md5 ex_formats ex_file_d (now ex_tick 0) = Some info \<and>
      fi_checksum info = None \<and>
      select_file (db (index_entry ex_md5 ex_formats ex_run0 (FileEntry ex_file_d, ex_tick)))
        (path_str (fe_path ex_file_d)) = Some row \<and>
      row = new_file_row (next_rowid (map f_id (files (db ex_run0)))) info \<and>
      checksum row = None \<and>
      file_name row = path_name (fe_path ex_file_d) \<and>
      file_extension row = file_ext_of (fe_path ex_file_d) \<and>
      file_size row = st_size ex_stat \<and>
      f_created_at row = st_ctime ex_stat \<and>
      f_modified_at row = st_mtime ex_stat)"
proof -
  have h1: "fe_stat ex_file_c = None"
    by (simp add: ex_file_c_def)
  have h2: "fe_stat ex_file_d = Some ex_stat" and h3: "fe_content ex_file_d = None"
    by (simp_all add: ex_file_d_def)
  have h4: "store_fault ex_tick = None"
    by (simp add: ex_tick_def)
  show ?thesis
    by (rule conjI [OF h1 conjI [OF h2 conjI [OF h3 conjI [OF h4
          C3_stat_failure_dropped [OF h1 h2 h3 h4]]]]])
qed

subsection \<open>A relation with a missing endpoint\<close>

lemma relation_pairs_missing:
  assumes "\<not> (source_path \<in> set (map dir_path dirs) \<and> target_path \<in> set (map dir_path dirs))"
  shows "relation_pairs dirs source_path target_path = []"
  using assms by (auto simp: relation_pairs_def filter_empty_conv)

lemma insert_select_relations_missing:
  assumes "\<not> (source_path \<in> set (map dir_path (directories s)) \<and>
              target_path \<in> set (map dir_path (directories s)))"
  shows "insert_select_relations s source_path target_path rtype descr created = Inr s"
  by (simp add: insert_select_relations_def relation_pairs_missing [OF assms])

text \<open>
  C6. When at least one of the two paths has no row in \<open>directories\<close>,
  \<open>add_directory_relation\<close> inserts nothing and reports success: it returns \<open>True\<close>
  with the catalog unchanged. The catalog is unchanged also when the store raises, in
  which case the call returns \<open>False\<close>; no call raises.
\<close>

theorem C6_relation_missing_endpoint:
  assumes "\<not> (source_path \<in> set (map dir_path (directories s)) \<and>
              target_path \<in> set (map dir_path (directories s)))"
    and "store_fault t = None"
  shows "add_directory_relation s source_path target_path rtype descr t = (True, s) \<and>
         snd (add_directory_relation s source_path target_path rtype descr t') = s"
proof -
  have ok: "add_directory_relation s source_path target_path rtype descr t = (True, s)"
    by (simp add: add_directory_relation_def insert_select_relations_missing [OF assms(1)]
        assms(2))
  have same: "snd (add_directory_relation s source_path target_path rtype descr t') = s"
    by (simp add: add_directory_relation_def insert_select_relations_missing [OF assms(1)]
        stmt_def)
  show ?thesis
    using ok same by simp
qed

lemma ex_catalog_dir_paths: "map dir_path (directories ex_catalog_dir) = [''/root/docs'']"
  by (simp add: ex_catalog_dir_def ex_dir_row_def)

theorem C6_relation_missing_endpoint_witness:
  "\<not> (''/root/docs'' \<in> set (map dir_path (directories ex_catalog_dir)) \<and>
      ''/root/other'' \<in> set (map dir_path (directories ex_catalog_dir))) \<and>
   store_fault ex_tick = None \<and>
   add_directory_relation ex_catalog_dir ''/root/docs'' ''/root/other''
     (Some ''depends_on'') None ex_tick = (True, ex_catalog_dir) \<and>
   snd (add_directory_relation ex_catalog_dir ''/root/docs'' ''/root/other''
     (Some ''depends_on'') None \<lparr>now = (\<lambda>k. 0), store_fault = Some 1\<rparr>) = ex_catalog_dir"
proof -
  have h1: "\<not> (''/root/docs'' \<in> set (map dir_path (directories ex_catalog_dir)) \<and>
               ''/root/other'' \<in> set (map dir_path (directories ex_catalog_dir)))"
    by (simp add: ex_catalog_dir_paths)
  have h2: "store_fault ex_tick = None"
    by (simp add: ex_tick_def)
  show ?thesis
    by (rule conjI [OF h1 conjI [OF h2 C6_relation_missing_endpoint [OF h1 h2]]])
qed

subsection \<open>Documentation calls are all or nothing\<close>

lemma select_dir_id_None_iff:
  "select_dir_id dirs p = None \<longleftrightarrow> p \<notin> set (map dir_path dirs)"
  by (auto simp: select_dir_id_def find_None_iff)

lemma stmt_eq:
  "stmt (store_fault t) k r = (if store_fault t = Some k then Inl (OperationalError k) else r)"
  by (simp add: stmt_def)

lemma fold_max_Max: "fold max vs (v::nat) = Max (set (v # vs))"
  by (simp only: Max.set_eq_fold)

lemma version_le_max:
  assumes "r \<in> set docs" and "doc_directory_id r = d"
  shows "version r < next_version_of (select_max_version docs d)"
proof -
  let ?vs = "map version (filter (\<lambda>r. doc_directory_id r = d) docs)"
  have mem: "version r \<in> set ?vs"
    using assms by auto
  then obtain v vs where vs: "?vs = v # vs"
    by (cases ?vs) auto
  have "version r \<le> Max (set (v # vs))"
    using mem vs by (intro Max_ge) auto
  then show ?thesis
    by (simp add: select_max_version_def vs next_version_of_def fold_max_Max
        del: set_simps)
qed

lemma clear_current_keys:
  "map (\<lambda>r. (doc_directory_id r, version r)) (clear_current docs d) =
   map (\<lambda>r. (doc_directory_id r, version r)) docs"
  by (induction docs) (auto simp: clear_current_def)

lemma clear_current_ids: "map doc_id (clear_current docs d) = map doc_id docs"
  by (induction docs) (auto simp: clear_current_def)

lemma next_version_fresh:
  "(d, next_version_of (select_max_version docs d)) \<notin>
     set (map (\<lambda>r. (doc_directory_id r, version r)) (clear_current docs d))"
  unfolding clear_current_keys using version_le_max [of _ docs d] by force

lemma insert_doc_next:
  "insert_doc (clear_current docs d) d (next_version_of (select_max_version docs d))
     (Some ttl) descr purp guide created created_by =
   Inr (clear_current docs d @
     [new_doc_row (next_rowid (map doc_id docs)) d
        (next_version_of (select_max_version docs d)) ttl descr purp guide created
        created_by])"
  using next_version_fresh [of d docs]
  by (simp add: insert_doc_def clear_current_ids)

lemma store_raises_Suc:
  "store_raises t (Suc n) \<longleftrightarrow> store_raises t n \<or> store_fault t = Some n"
  by (auto simp: store_raises_def split: option.splits)

lemma store_raises_0 [simp]: "\<not> store_raises t 0"
  by (simp add: store_raises_def split: option.splits)

lemma add_documentation_try_fails:
  assumes "title_arg = None \<or> store_raises t 6"
  shows "add_directory_documentation s p title_arg descr purp guide created_by t = (False, s)"
  using assms
  by (auto simp: add_directory_documentation_def add_documentation_try_def stmt_eq Let_def
      insert_doc_def store_raises_def numeral_eq_Suc less_Suc_eq
      split: option.splits sum.splits)

lemma not_raises_stmt:
  assumes "\<not> store_raises t n" and "k < n"
  shows "stmt (store_fault t) k r = r"
  using assms by (auto simp: stmt_def store_raises_def split: option.splits)

lemma add_documentation_succeeds:
  assumes "select_dir_id (directories s) p = Some d" and "\<not> store_raises t 6"
  shows "add_directory_documentation s p (Some ttl) descr purp guide created_by t =
    (True, s\<lparr>directory_docs := clear_current (directory_docs s) d @
               [new_doc_row (next_rowid (map doc_id (directory_docs s))) d
                  (next_version_of (select_max_version (directory_docs s) d)) ttl descr
                  purp guide (now t 0) created_by],
             directories := stamp_documented (directories s) d (now t 1)\<rparr>)"
proof -
  note st = not_raises_stmt [OF assms(2)]
  have tr: "add_documentation_try s d (Some ttl) descr purp guide created_by t =
    Inr (s\<lparr>directory_docs := clear_current (directory_docs s) d @
               [new_doc_row (next_rowid (map doc_id (directory_docs s))) d
                  (next_version_of (select_max_version (directory_docs s) d)) ttl descr
                  purp guide (now t 0) created_by],
             directories := stamp_documented (directories s) d (now t 1)\<rparr>)"
    by (simp add: add_documentation_try_def st Let_def insert_doc_next)
  show ?thesis
    by (simp add: add_directory_documentation_def st assms(1) tr)
qed

text \<open>
  C8. For a path with no cataloged directory, \<open>add_directory_documentation\<close> returns
  \<open>False\<close> and changes nothing. For a cataloged directory the call is all or nothing:
  with a null title or a store failure at any of its six statements it returns
  \<open>False\<close> and the catalog is as before; otherwise it returns \<open>True\<close> and the
  catalog has the current flags of the directory cleared, the new row with version
  max + 1 (or 1) appended as current, and the directory stamped.
\<close>

theorem C8_documentation_all_or_nothing:
  assumes "pa \<notin> set (map dir_path (directories sa))"
    and "select_dir_id (directories s) p = Some d"
  shows "add_directory_documentation sa pa title_a descr_a purp_a guide_a by_a ta = (False, sa) \<and>
         add_directory_documentation s p title_arg descr purp guide created_by t =
           (if title_arg = None \<or> store_raises t 6 then (False, s)
            else (True,
              s\<lparr>directory_docs := clear_current (directory_docs s) d @
                    [new_doc_row (next_rowid (map doc_id (directory_docs s))) d
                       (next_version_of (select_max_version (directory_docs s) d))
                       (the title_arg) descr purp guide (now t 0) created_by],
                  directories := stamp_documented (directories s) d (now t 1)\<rparr>))"
proof -
  have none: "select_dir_id (directories sa) pa = None"
    using assms(1) by (simp add: select_dir_id_None_iff)
  have first: "add_directory_documentation sa pa title_a descr_a purp_a guide_a by_a ta = (False, sa)"
    by (simp add: add_directory_documentation_def none stmt_def)
  show ?thesis
  proof (cases "title_arg = None \<or> store_raises t 6")
    case True
    then show ?thesis
      using first add_documentation_try_fails [of title_arg t s p] by simp
  next
    case False
    then obtain ttl where ttl: "title_arg = Some ttl" and nr: "\<not> store_raises t 6"
      by auto
    show ?thesis
      using first add_documentation_succeeds [OF assms(2) nr, of ttl] False ttl by simp
  qed
qed

lemma ex_docs_dir_id: "select_dir_id (directories ex_catalog_dir) ''/root/docs'' = Some 1"
  by (simp add: select_dir_id_def ex_catalog_dir_def ex_dir_row_def)

lemma ex_other_missing: "''/root/other'' \<notin> set (map dir_path (directories ex_catalog_dir))"
  by (simp add: ex_catalog_dir_paths)

lemma ex_catalog_no_docs: "directory_docs ex_catalog_dir = []"
  by (simp add: ex_catalog_dir_def ex_catalog_def init_database_def empty_catalog_def)

theorem C8_documentation_all_or_nothing_witness:
  "''/root/other'' \<notin> set (map dir_path (directories ex_catalog_dir)) \<and>
   select_dir_id (directories ex_catalog_dir) ''/root/docs'' = Some 1 \<and>
   add_directory_documentation ex_catalog_dir ''/root/other'' (Some ''Docs'') None None None
     (Some ''system'') ex_tick = (False, ex_catalog_dir) \<and>
   add_directory_documentation ex_catalog_dir ''/root/docs'' None None None None
     (Some ''system'') ex_tick = (False, ex_catalog_dir) \<and>
   add_directory_documentation ex_catalog_dir ''/root/docs'' (Some ''Docs'') None None None
     (Some ''system'') \<lparr>now = (\<lambda>k. 0), store_fault = Some 4\<rparr> = (False, ex_catalog_dir) \<and>
   add_directory_documentation ex_catalog_dir ''/root/docs'' (Some ''Docs'') None None None
     (Some ''system'') ex_tick =
     (True, ex_catalog_dir
        \<lparr>directory_docs := [new_doc_row 1 1 1 ''Docs'' None None None 100 (Some ''system'')],
         directories := [ex_dir_row\<lparr>last_documented_at := Some 101\<rparr>]\<rparr>)"
proof -
  note c = C8_documentation_all_or_nothing [OF ex_other_missing ex_docs_dir_id]
  have nr: "\<not> store_raises ex_tick 6"
    by (simp add: store_raises_def ex_tick_def)
  have r4: "store_raises \<lparr>now = (\<lambda>k. 0), store_fault = Some 4\<rparr> 6"
    by (simp add: store_raises_def)
  have a: "add_directory_documentation ex_catalog_dir ''/root/other'' (Some ''Docs'') None None
     None (Some ''system'') ex_tick = (False, ex_catalog_dir)"
    using c by blast
  have b: "add_directory_documentation ex_catalog_dir ''/root/docs'' None None None None
     (Some ''system'') ex_tick = (False, ex_catalog_dir)"
    using C8_documentation_all_or_nothing [where title_arg = None and t = ex_tick,
        OF ex_other_missing ex_docs_dir_id, THEN conjunct2] by simp
  have f: "add_directory_documentation ex_catalog_dir ''/root/docs'' (Some ''Docs'') None None
     None (Some ''system'') \<lparr>now = (\<lambda>k. 0), store_fault = Some 4\<rparr> = (False, ex_catalog_dir)"
    using C8_documentation_all_or_nothing [where title_arg = "Some ''Docs''" and
        t = "\<lparr>now = (\<lambda>k. 0), store_fault = Some 4\<rparr>",
        OF ex_other_missing ex_docs_dir_id, THEN conjunct2] r4
    by simp
  have g: "add_directory_documentation ex_catalog_dir ''/root/docs'' (Some ''Docs'') None None
     None (Some ''system'') ex_tick =
     (True, ex_catalog_dir
        \<lparr>directory_docs := [new_doc_row 1 1 1 ''Docs'' None None None 100 (Some ''system'')],
         directories := [ex_dir_row\<lparr>last_documented_at := Some 101\<rparr>]\<rparr>)"
    using C8_documentation_all_or_nothing [where title_arg = "Some ''Docs''" and t = ex_tick,
        OF ex_other_missing ex_docs_dir_id, THEN conjunct2] nr
    by (simp add: ex_catalog_no_docs clear_current_def next_rowid_def select_max_version_def
        next_version_of_def stamp_documented_def ex_tick_def)
       (simp add: ex_catalog_dir_def ex_dir_row_def)
  show ?thesis
    using ex_other_missing ex_docs_dir_id a b f g by blast
qed

subsection \<open>Successive documentation versions\<close>

lemma select_dir_id_stamp:
  "select_dir_id (stamp_documented dirs d ts) p = select_dir_id dirs p"
  by (induction dirs) (auto simp: select_dir_id_def stamp_documented_def)

lemma find_dir_stamp:
  assumes "find (\<lambda>r. dir_path r = p) dirs = Some r" and "d_id r = d"
  shows "find (\<lambda>r. dir_path r = p) (stamp_documented dirs d ts) =
           Some (r\<lparr>last_documented_at := Some ts\<rparr>)"
  using assms by (induction dirs) (auto simp: stamp_documented_def split: if_splits)

lemma select_dir_id_find:
  "select_dir_id dirs p = Some d \<Longrightarrow>
     \<exists>r. find (\<lambda>r. dir_path r = p) dirs = Some r \<and> d_id r = d"
  by (auto simp: select_dir_id_def)

lemma filter_clear_current:
  "filter (\<lambda>r. doc_directory_id r = d) (clear_current docs d) =
     map (\<lambda>r. r\<lparr>is_current := False\<rparr>) (filter (\<lambda>r. doc_directory_id r = d) docs)"
  by (induction docs) (auto simp: clear_current_def)

lemma select_max_version_Max:
  assumes "map version (filter (\<lambda>r. doc_directory_id r = d) docs) = vs" and "vs \<noteq> []"
  shows "select_max_version docs d = Some (Max (set vs))"
proof -
  obtain v vs' where "vs = v # vs'"
    using assms(2) by (cases vs) auto
  then show ?thesis
    using assms(1) by (simp add: select_max_version_def fold_max_Max del: set_simps)
qed

lemma max_version_upto:
  assumes "map version (filter (\<lambda>r. doc_directory_id r = d) docs) = [1..<Suc k]"
  shows "next_version_of (select_max_version docs d) = Suc k"
proof (cases k)
  case 0
  then show ?thesis
    using assms by (simp add: select_max_version_def next_version_of_def)
next
  case (Suc j)
  have ne: "[1..<Suc k] \<noteq> []"
    using Suc by simp
  have "Max (set [1..<Suc k]) = k"
    using Suc by (intro Max_eqI) auto
  then show ?thesis
    using select_max_version_Max [OF assms ne] by (simp add: next_version_of_def)
qed

lemma new_doc_row_fields [simp]:
  "version (new_doc_row rid d v ttl descr purp guide created created_by) = v"
  "is_current (new_doc_row rid d v ttl descr purp guide created created_by) = True"
  "doc_directory_id (new_doc_row rid d v ttl descr purp guide created created_by) = d"
  "doc_id (new_doc_row rid d v ttl descr purp guide created created_by) = rid"
  by (simp_all add: new_doc_row_def)

lemma docs_of_after:
  "doc_directory_id row = d \<Longrightarrow>
   docs_of (s\<lparr>directory_docs := clear_current (directory_docs s) d @ [row],
              directories := dirs\<rparr>) d =
     map (\<lambda>r. r\<lparr>is_current := False\<rparr>) (docs_of s d) @ [row]"
  by (simp add: docs_of_def filter_clear_current)

text \<open>One successful call, seen from the directory's documentation rows.\<close>

lemma documentation_step:
  assumes dir: "select_dir_id (directories s) p = Some d"
    and vs: "map version (docs_of s d) = [1..<Suc k]"
    and ttl: "dc_title c \<noteq> None" and nr: "\<not> store_raises (dc_tick c) 6"
  shows "fst (add_documentation_call s p c) = True"
    and "select_dir_id (directories (snd (add_documentation_call s p c))) p = Some d"
    and "map version (docs_of (snd (add_documentation_call s p c)) d) = [1..<Suc (Suc k)]"
    and "map is_current (docs_of (snd (add_documentation_call s p c)) d) =
           replicate k False @ [True]"
    and "map version (filter is_current (docs_of (snd (add_documentation_call s p c)) d)) =
           [Suc k]"
    and "map_option last_documented_at (select_dir (snd (add_documentation_call s p c)) p) =
           Some (Some (now (dc_tick c) 1))"
proof -
  obtain t where t: "dc_title c = Some t"
    using ttl by auto
  let ?row = "new_doc_row (next_rowid (map doc_id (directory_docs s))) d
                  (next_version_of (select_max_version (directory_docs s) d)) t
                  (dc_description c) (dc_purpose c) (dc_guidelines c) (now (dc_tick c) 0)
                  (dc_created_by c)"
  let ?s' = "s\<lparr>directory_docs := clear_current (directory_docs s) d @ [?row],
             directories := stamp_documented (directories s) d (now (dc_tick c) 1)\<rparr>"
  have call: "add_documentation_call s p c = (True, ?s')"
    unfolding add_documentation_call_def t by (rule add_documentation_succeeds [OF dir nr])
  have nv: "next_version_of (select_max_version (directory_docs s) d) = Suc k"
    using vs by (intro max_version_upto) (simp add: docs_of_def)
  note docs = docs_of_after
  have len: "length (docs_of s d) = k"
    using arg_cong [OF vs, of length] by simp
  show "fst (add_documentation_call s p c) = True"
    by (simp add: call)
  show "select_dir_id (directories (snd (add_documentation_call s p c))) p = Some d"
    by (simp add: call select_dir_id_stamp dir)
  have "map version (docs_of ?s' d) = map version (docs_of s d) @ [Suc k]"
    using nv by (simp add: docs comp_def)
  also have "\<dots> = [1..<Suc (Suc k)]"
    by (simp add: vs)
  finally show "map version (docs_of (snd (add_documentation_call s p c)) d) =
      [1..<Suc (Suc k)]"
    by (simp add: call)
  show "map is_current (docs_of (snd (add_documentation_call s p c)) d) =
           replicate k False @ [True]"
    using len by (simp add: call docs comp_def map_replicate_const)
  show "map version (filter is_current (docs_of (snd (add_documentation_call s p c)) d)) =
           [Suc k]"
    using nv by (simp add: call docs filter_map comp_def)
  obtain r where r: "find (\<lambda>r. dir_path r = p) (directories s) = Some r" "d_id r = d"
    using select_dir_id_find [OF dir] by auto
  show "map_option last_documented_at (select_dir (snd (add_documentation_call s p c)) p) =
           Some (Some (now (dc_tick c) 1))"
    by (simp add: call select_dir_def find_dir_stamp [OF r])
qed

lemma documentation_calls:
  assumes "select_dir_id (directories s) p = Some d"
    and "map version (docs_of s d) = [1..<Suc k]"
    and "\<forall>c\<in>set calls. dc_title c \<noteq> None \<and> \<not> store_raises (dc_tick c) 6"
  shows "fst (add_documentation_calls s p calls) = replicate (length calls) True \<and>
         map version (docs_of (snd (add_documentation_calls s p calls)) d) =
           [1..<Suc (k + length calls)] \<and>
         (calls \<noteq> [] \<longrightarrow>
           map is_current (docs_of (snd (add_documentation_calls s p calls)) d) =
             replicate (k + length calls - 1) False @ [True] \<and>
           map version (filter is_current
               (docs_of (snd (add_documentation_calls s p calls)) d)) = [k + length calls] \<and>
           map_option last_documented_at
               (select_dir (snd (add_documentation_calls s p calls)) p) =
             Some (Some (now (dc_tick (last calls)) 1)))"
  using assms
proof (induction calls arbitrary: s k)
  case Nil
  then show ?case by simp
next
  case (Cons c cs)
  obtain ok s1 where call: "add_documentation_call s p c = (ok, s1)"
    by (cases "add_documentation_call s p c")
  have good: "dc_title c \<noteq> None" "\<not> store_raises (dc_tick c) 6"
    using Cons.prems(3) by auto
  note step = documentation_step [OF Cons.prems(1) Cons.prems(2) good, unfolded call fst_conv snd_conv]
  have rest: "\<forall>c\<in>set cs. dc_title c \<noteq> None \<and> \<not> store_raises (dc_tick c) 6"
    using Cons.prems(3) by simp
  note ih = Cons.IH [OF step(2) step(3) rest]
  obtain oks s2 where calls: "add_documentation_calls s1 p cs = (oks, s2)"
    by (cases "add_documentation_calls s1 p cs")
  show ?case
  proof (cases "cs = []")
    case True
    then show ?thesis
      using step by (simp add: call)
  next
    case False
    then show ?thesis
      using ih step(1) by (simp add: call calls)
  qed
qed

text \<open>
  C2. For a cataloged directory with no documentation yet, \<open>N \<ge> 1\<close> calls of
  \<open>add_directory_documentation\<close> (each with a title, none interrupted by the store) all
  return \<open>True\<close> and leave exactly \<open>N\<close> rows for the directory, with versions
  \<open>1..N\<close> in insertion order, of which only the last is current. After each of the
  calls exactly one row is current, the one just inserted, and
  \<open>last_documented_at\<close> is the second clock reading of that call.
\<close>

theorem C2_documentation_versions:
  assumes "select_dir_id (directories s) p = Some d"
    and "docs_of s d = []"
    and "calls \<noteq> []"
    and "\<forall>c\<in>set calls. dc_title c \<noteq> None \<and> \<not> store_raises (dc_tick c) 6"
  shows "fst (add_documentation_calls s p calls) = replicate (length calls) True \<and>
         length (docs_of (snd (add_documentation_calls s p calls)) d) = length calls \<and>
         map version (docs_of (snd (add_documentation_calls s p calls)) d) =
           [1..<Suc (length calls)] \<and>
         map is_current (docs_of (snd (add_documentation_calls s p calls)) d) =
           replicate (length calls - 1) False @ [True] \<and>
         (\<forall>n. 0 < n \<and> n \<le> length calls \<longrightarrow>
            map version (filter is_current
              (docs_of (snd (add_documentation_calls s p (take n calls))) d)) = [n] \<and>
            map_option last_documented_at
              (select_dir (snd (add_documentation_calls s p (take n calls))) p) =
              Some (Some (now (dc_tick (calls ! (n - 1))) 1)))"
proof -
  have vs: "map version (docs_of s d) = [1..<Suc 0]"
    by (simp add: assms(2))
  note all = documentation_calls [OF assms(1) vs assms(4)]
  have len: "length (docs_of (snd (add_documentation_calls s p calls)) d) = length calls"
    using arg_cong [OF all [THEN conjunct2, THEN conjunct1], of length]
    by (simp del: upt_Suc)
  have prefix: "map version (filter is_current
              (docs_of (snd (add_documentation_calls s p (take n calls))) d)) = [n] \<and>
            map_option last_documented_at
              (select_dir (snd (add_documentation_calls s p (take n calls))) p) =
              Some (Some (now (dc_tick (calls ! (n - 1))) 1))"
    if n: "0 < n" "n \<le> length calls" for n
  proof -
    have good: "\<forall>c\<in>set (take n calls). dc_title c \<noteq> None \<and> \<not> store_raises (dc_tick c) 6"
      using assms(4) by (meson in_set_takeD)
    have ne: "take n calls \<noteq> []"
      using n assms(3) by auto
    have ln: "length (take n calls) = n"
      using n by simp
    have "last (take n calls) = take n calls ! (n - 1)"
      using last_conv_nth [OF ne] by (simp only: ln)
    also have "\<dots> = calls ! (n - 1)"
      using n by (intro nth_take) simp
    finally have last: "last (take n calls) = calls ! (n - 1)" .
    show ?thesis
      using documentation_calls [OF assms(1) vs good] ne last ln by simp
  qed
  show ?thesis
    using all assms(3) len prefix by simp
qed

lemma ex_calls_good:
  "\<forall>c\<in>set [ex_call_1, ex_call_2]. dc_title c \<noteq> None \<and> \<not> store_raises (dc_tick c) 6"
  by (simp add: ex_call_1_def ex_call_2_def store_raises_def ex_tick_def)

lemma ex_docs_of_empty: "docs_of ex_catalog_dir 1 = []"
  by (simp add: docs_of_def ex_catalog_no_docs)

theorem C2_documentation_versions_witness:
  "select_dir_id (directories ex_catalog_dir) ''/root/docs'' = Some 1 \<and>
   docs_of ex_catalog_dir 1 = [] \<and>
   [ex_call_1, ex_call_2] \<noteq> [] \<and>
   dc_title ex_call_1 \<noteq> None \<and> \<not> store_raises (dc_tick ex_call_1) 6 \<and>
   dc_title ex_call_2 \<noteq> None \<and> \<not> store_raises (dc_tick ex_call_2) 6 \<and>
   fst (add_documentation_calls ex_catalog_dir ''/root/docs'' [ex_call_1, ex_call_2]) =
     [True, True] \<and>
   map version (docs_of
     (snd (add_documentation_calls ex_catalog_dir ''/root/docs'' [ex_call_1, ex_call_2])) 1) =
     [1, 2] \<and>
   map is_current (docs_of
     (snd (add_documentation_calls ex_catalog_dir ''/root/docs'' [ex_call_1, ex_call_2])) 1) =
     [False, True] \<and>
   map version (filter is_current (docs_of
     (snd (add_documentation_calls ex_catalog_dir ''/root/docs'' [ex_call_1])) 1)) = [1] \<and>
   map_option last_documented_at (select_dir
     (snd (add_documentation_calls ex_catalog_dir ''/root/docs'' [ex_call_1, ex_call_2]))
     ''/root/docs'') = Some (Some 201)"
proof -
  have ne: "[ex_call_1, ex_call_2] \<noteq> []"
    by simp
  note c = C2_documentation_versions [OF ex_docs_dir_id ex_docs_of_empty ne ex_calls_good]
  have a: "fst (add_documentation_calls ex_catalog_dir ''/root/docs'' [ex_call_1, ex_call_2]) =
     [True, True]"
    using c [THEN conjunct1] by (simp add: numeral_2_eq_2)
  have b: "map version (docs_of
     (snd (add_documentation_calls ex_catalog_dir ''/root/docs'' [ex_call_1, ex_call_2])) 1) =
     [1, 2]"
    using c [THEN conjunct2, THEN conjunct2, THEN conjunct1] by (simp add: numeral_2_eq_2)
  have d: "map is_current (docs_of
     (snd (add_documentation_calls ex_catalog_dir ''/root/docs'' [ex_call_1, ex_call_2])) 1) =
     [False, True]"
    using c [THEN conjunct2, THEN conjunct2, THEN conjunct2, THEN conjunct1] by simp
  note pre = c [THEN conjunct2, THEN conjunct2, THEN conjunct2, THEN conjunct2, rule_format]
  have e: "map version (filter is_current (docs_of
     (snd (add_documentation_calls ex_catalog_dir ''/root/docs'' [ex_call_1])) 1)) = [1]"
    using pre [of 1] by simp
  have f: "map_option last_documented_at (select_dir
     (snd (add_documentation_calls ex_catalog_dir ''/root/docs'' [ex_call_1, ex_call_2]))
     ''/root/docs'') = Some (Some 201)"
    using pre [of 2] by (simp add: ex_call_2_def)
  show ?thesis
    using ex_docs_dir_id ex_docs_of_empty ex_calls_good a b d e f by simp
qed

subsection \<open>Tags\<close>

lemma tag_keys_insert_or_ignore:
  "set (map (\<lambda>r. (tag_directory_id r, tag_name r)) (insert_or_ignore_tag rows d tag ts cb)) =
     insert (d, tag) (set (map (\<lambda>r. (tag_directory_id r, tag_name r)) rows))"
  by (auto simp: insert_or_ignore_tag_def)

lemma distinct_insert_or_ignore:
  "distinct (map (\<lambda>r. (tag_directory_id r, tag_name r)) rows) \<Longrightarrow>
   distinct (map (\<lambda>r. (tag_directory_id r, tag_name r)) (insert_or_ignore_tag rows d tag ts cb))"
  by (auto simp: insert_or_ignore_tag_def)

lemma insert_or_ignore_present:
  "(d, tag) \<in> set (map (\<lambda>r. (tag_directory_id r, tag_name r)) rows) \<Longrightarrow>
   insert_or_ignore_tag rows d tag ts cb = rows"
  by (simp add: insert_or_ignore_tag_def)

lemma insert_tags_no_fault:
  assumes "\<not> store_raises t (Suc (i + length tags))"
  shows "\<exists>rows'. insert_tags t d cb i rows tags = Inr rows' \<and>
     set (map (\<lambda>r. (tag_directory_id r, tag_name r)) rows') =
       set (map (\<lambda>r. (tag_directory_id r, tag_name r)) rows) \<union> {d} \<times> set tags \<and>
     (distinct (map (\<lambda>r. (tag_directory_id r, tag_name r)) rows) \<longrightarrow>
      distinct (map (\<lambda>r. (tag_directory_id r, tag_name r)) rows')) \<and>
     ({d} \<times> set tags \<subseteq> set (map (\<lambda>r. (tag_directory_id r, tag_name r)) rows) \<longrightarrow>
      rows' = rows)"
  using assms
proof (induction tags arbitrary: i rows)
  case Nil
  then show ?case by simp
next
  case (Cons tag tags)
  have nr: "\<not> store_raises t (Suc (Suc i + length tags))"
    using Cons.prems by simp
  have st: "stmt (store_fault t) (Suc i) r = r" for r :: "error + tag_row list"
    using Cons.prems by (intro not_raises_stmt [of t "Suc (i + length (tag # tags))"]) auto
  obtain rows' where ih:
    "insert_tags t d cb (Suc i) (insert_or_ignore_tag rows d tag (now t i) cb) tags = Inr rows'"
    "set (map (\<lambda>r. (tag_directory_id r, tag_name r)) rows') =
       set (map (\<lambda>r. (tag_directory_id r, tag_name r))
              (insert_or_ignore_tag rows d tag (now t i) cb)) \<union> {d} \<times> set tags"
    "distinct (map (\<lambda>r. (tag_directory_id r, tag_name r))
              (insert_or_ignore_tag rows d tag (now t i) cb)) \<longrightarrow>
      distinct (map (\<lambda>r. (tag_directory_id r, tag_name r)) rows')"
    "{d} \<times> set tags \<subseteq> set (map (\<lambda>r. (tag_directory_id r, tag_name r))
              (insert_or_ignore_tag rows d tag (now t i) cb)) \<longrightarrow>
      rows' = insert_or_ignore_tag rows d tag (now t i) cb"
    using Cons.IH [OF nr, of "insert_or_ignore_tag rows d tag (now t i) cb"] by blast
  have 1: "insert_tags t d cb i rows (tag # tags) = Inr rows'"
    by (simp add: st ih(1))
  have 2: "set (map (\<lambda>r. (tag_directory_id r, tag_name r)) rows') =
       set (map (\<lambda>r. (tag_directory_id r, tag_name r)) rows) \<union> {d} \<times> set (tag # tags)"
    unfolding ih(2) tag_keys_insert_or_ignore by auto
  have 3: "distinct (map (\<lambda>r. (tag_directory_id r, tag_name r)) rows) \<longrightarrow>
      distinct (map (\<lambda>r. (tag_directory_id r, tag_name r)) rows')"
    using ih(3) distinct_insert_or_ignore [of rows d tag "now t i" cb] by blast
  have 4: "{d} \<times> set (tag # tags) \<subseteq> set (map (\<lambda>r. (tag_directory_id r, tag_name r)) rows) \<longrightarrow>
      rows' = rows"
  proof
    assume sub: "{d} \<times> set (tag # tags) \<subseteq> set (map (\<lambda>r. (tag_directory_id r, tag_name r)) rows)"
    then have same: "insert_or_ignore_tag rows d tag (now t i) cb = rows"
      by (intro insert_or_ignore_present) auto
    show "rows' = rows"
      using ih(4) sub unfolding same by auto
  qed
  show ?case
    using 1 2 3 4 by blast
qed

lemma distinct_key_count:
  "distinct (map f xs) \<Longrightarrow> k \<in> set (map f xs) \<Longrightarrow> length (filter (\<lambda>r. f r = k) xs) = 1"
proof (induction xs)
  case Nil
  then show ?case by simp
next
  case (Cons x xs)
  show ?case
  proof (cases "f x = k")
    case True
    then have "filter (\<lambda>r. f r = k) xs = []"
      using Cons.prems(1) by (auto simp: filter_empty_conv image_iff)
    then show ?thesis
      using True by simp
  next
    case False
    then show ?thesis
      using Cons by auto
  qed
qed

text \<open>
  C5. In a catalog that satisfies the unique constraint on \<open>(directory_id, tag_name)\<close>,
  attaching a tag to a cataloged directory, once or several times in one call of
  \<open>add_directory_tags\<close> and again in a second call, leaves exactly one row for that
  directory and tag; every call returns \<open>True\<close>, and a call that only repeats the tag
  leaves the catalog as it was.
\<close>

theorem C5_tag_attached_once:
  assumes "unique_tags s"
    and "select_dir_id (directories s) p = Some d"
    and "tag \<in> set tags" and "tag \<in> set tags'"
    and "\<not> store_raises t (length tags + 2)"
    and "\<not> store_raises t' (length tags' + 2)"
    and "\<not> store_raises t'' 4"
  shows "fst (add_directory_tags s p tags cb t) = True \<and>
         length (tags_of (snd (add_directory_tags s p tags cb t)) d tag) = 1 \<and>
         fst (add_directory_tags (snd (add_directory_tags s p tags cb t)) p tags' cb' t') = True \<and>
         length (tags_of
           (snd (add_directory_tags (snd (add_directory_tags s p tags cb t)) p tags' cb' t'))
           d tag) = 1 \<and>
         add_directory_tags (snd (add_directory_tags s p tags cb t)) p [tag, tag] cb'' t'' =
           (True, snd (add_directory_tags s p tags cb t))"
proof -
  let ?key = "\<lambda>r. (tag_directory_id r, tag_name r)"
  have call: "\<exists>rows'. add_directory_tags s0 p tgs c tk = (True, s0\<lparr>directory_tags := rows'\<rparr>) \<and>
      set (map ?key rows') = set (map ?key (directory_tags s0)) \<union> {d} \<times> set tgs \<and>
      (unique_tags s0 \<longrightarrow> unique_tags (s0\<lparr>directory_tags := rows'\<rparr>)) \<and>
      ({d} \<times> set tgs \<subseteq> set (map ?key (directory_tags s0)) \<longrightarrow> rows' = directory_tags s0)"
    if dir: "select_dir_id (directories s0) p = Some d"
      and nr: "\<not> store_raises tk (length tgs + 2)" for s0 tgs c tk
  proof -
    obtain rows' where rows':
      "insert_tags tk d c 0 (directory_tags s0) tgs = Inr rows'"
      "set (map ?key rows') = set (map ?key (directory_tags s0)) \<union> {d} \<times> set tgs"
      "distinct (map ?key (directory_tags s0)) \<longrightarrow> distinct (map ?key rows')"
      "{d} \<times> set tgs \<subseteq> set (map ?key (directory_tags s0)) \<longrightarrow> rows' = directory_tags s0"
      using insert_tags_no_fault [of tk 0 tgs d c "directory_tags s0"] nr
      by (auto simp: store_raises_Suc)
    have st: "stmt (store_fault tk) k r = r" if "k < length tgs + 2" for k and r :: "error + 'b"
      using not_raises_stmt [OF nr that] .
    have res: "add_directory_tags s0 p tgs c tk = (True, s0\<lparr>directory_tags := rows'\<rparr>)"
      by (simp add: add_directory_tags_def st dir rows'(1))
    have uniq: "unique_tags s0 \<longrightarrow> unique_tags (s0\<lparr>directory_tags := rows'\<rparr>)"
      using rows'(3) by (simp add: unique_tags_def)
    show ?thesis
      using res rows'(2) uniq rows'(4) by (intro exI [of _ rows'] conjI)
  qed
  obtain rows1 where r1:
    "add_directory_tags s p tags cb t = (True, s\<lparr>directory_tags := rows1\<rparr>)"
    "set (map ?key rows1) = set (map ?key (directory_tags s)) \<union> {d} \<times> set tags"
    "unique_tags (s\<lparr>directory_tags := rows1\<rparr>)"
    using call [OF assms(2) assms(5), of cb] assms(1) by blast
  let ?s1 = "s\<lparr>directory_tags := rows1\<rparr>"
  have dir1: "select_dir_id (directories ?s1) p = Some d"
    using assms(2) by simp
  obtain rows2 where r2:
    "add_directory_tags ?s1 p tags' cb' t' = (True, ?s1\<lparr>directory_tags := rows2\<rparr>)"
    "set (map ?key rows2) = set (map ?key (directory_tags ?s1)) \<union> {d} \<times> set tags'"
    "unique_tags (?s1\<lparr>directory_tags := rows2\<rparr>)"
    using call [OF dir1 assms(6), of cb'] r1(3) by blast
  have in1: "(d, tag) \<in> set (map ?key rows1)"
    using r1(2) assms(3) by auto
  have in2: "(d, tag) \<in> set (map ?key rows2)"
    using r2(2) assms(4) by auto
  have c1: "length (tags_of ?s1 d tag) = 1"
    using distinct_key_count [of ?key rows1 "(d, tag)"] r1(3) in1
    by (simp add: tags_of_def unique_tags_def)
  have c2: "length (tags_of (?s1\<lparr>directory_tags := rows2\<rparr>) d tag) = 1"
    using distinct_key_count [of ?key rows2 "(d, tag)"] r2(3) in2
    by (simp add: tags_of_def unique_tags_def)
  have nr2: "\<not> store_raises t'' (length [tag, tag] + 2)"
    using assms(7) by (simp add: numeral_eq_Suc)
  have again: "add_directory_tags ?s1 p [tag, tag] cb'' t'' = (True, ?s1)"
    using call [OF dir1 nr2, of cb''] in1 by auto
  show ?thesis
    using c1 c2 again by (simp add: r1(1) r2(1))
qed

lemma ex_unique_tags: "unique_tags ex_catalog_dir"
  by (simp add: unique_tags_def ex_catalog_dir_def ex_catalog_def init_database_def
      empty_catalog_def)

lemma ex_tick_never_raises: "\<not> store_raises ex_tick n"
  by (simp add: store_raises_def ex_tick_def)

theorem C5_tag_attached_once_witness:
  "unique_tags ex_catalog_dir \<and>
   select_dir_id (directories ex_catalog_dir) ''/root/docs'' = Some 1 \<and>
   ''draft'' \<in> set [''draft'', ''draft''] \<and> ''draft'' \<in> set [''draft''] \<and>
   \<not> store_raises ex_tick (length [''draft'', ''draft''] + 2) \<and>
   \<not> store_raises ex_tick (length [''draft''] + 2) \<and>
   \<not> store_raises ex_tick 4 \<and>
   fst (add_directory_tags ex_catalog_dir ''/root/docs'' [''draft'', ''draft'']
          (Some ''system'') ex_tick) = True \<and>
   length (tags_of (snd (add_directory_tags ex_catalog_dir ''/root/docs'' [''draft'', ''draft'']
          (Some ''system'') ex_tick)) 1 ''draft'') = 1 \<and>
   fst (add_directory_tags (snd (add_directory_tags ex_catalog_dir ''/root/docs''
          [''draft'', ''draft''] (Some ''system'') ex_tick)) ''/root/docs'' [''draft'']
          (Some ''system'') ex_tick) = True \<and>
   length (tags_of (snd (add_directory_tags (snd (add_directory_tags ex_catalog_dir
          ''/root/docs'' [''draft'', ''draft''] (Some ''system'') ex_tick)) ''/root/docs''
          [''draft''] (Some ''system'') ex_tick)) 1 ''draft'') = 1 \<and>
   add_directory_tags (snd (add_directory_tags ex_catalog_dir ''/root/docs''
          [''draft'', ''draft''] (Some ''system'') ex_tick)) ''/root/docs''
          [''draft'', ''draft''] (Some ''system'') ex_tick =
     (True, snd (add_directory_tags ex_catalog_dir ''/root/docs'' [''draft'', ''draft'']
          (Some ''system'') ex_tick))"
proof -
  have h3: "''draft'' \<in> set [''draft'', ''draft'']" and h4: "''draft'' \<in> set [''draft'']"
    by simp_all
  show ?thesis
    by (rule conjI [OF ex_unique_tags conjI [OF ex_docs_dir_id conjI [OF h3 conjI [OF h4
          conjI [OF ex_tick_never_raises conjI [OF ex_tick_never_raises
          conjI [OF ex_tick_never_raises
          C5_tag_attached_once [OF ex_unique_tags ex_docs_dir_id h3 h4 ex_tick_never_raises
            ex_tick_never_raises ex_tick_never_raises]]]]]]]])
qed

subsection \<open>Indexing runs\<close>

text \<open>
  C1 says that every \<open>processing_queue\<close> row references an existing \<open>files\<close> row.
  The code at the failing input: the tree with \<open>a.txt\<close> (enabled, converts) and
  \<open>b.xyz\<close> is indexed twice on a fresh catalog. After the first run the files have ids
  1 and 2 and the queue row references file 1; the second run replaces both rows, which
  now have ids 3 and 4, and the first queue row still holds \<open>file_id = 1\<close>.
\<close>

theorem C1_dangling_queue_row:
  "map f_id (files (index_runs ex_md5 ex_formats ex_catalog [ex_walk, ex_walk])) = [3, 4] \<and>
   map file_path (files (index_runs ex_md5 ex_formats ex_catalog [ex_walk, ex_walk])) =
     [''/root/a.txt'', ''/root/b.xyz''] \<and>
   map file_id (processing_queue (index_runs ex_md5 ex_formats ex_catalog [ex_walk, ex_walk])) =
     [1, 3] \<and>
   map f_id (files (index_runs ex_md5 ex_formats ex_catalog [ex_walk])) = [1, 2] \<and>
   map file_id (processing_queue (index_runs ex_md5 ex_formats ex_catalog [ex_walk])) = [1]"
  by code_simp

subsection \<open>One queue row for every processed save\<close>

lemma next_rowid_Max: "next_rowid ids = Suc (Max (insert 0 (set ids)))"
  by (simp add: next_rowid_def fold_max_Max)

lemma next_rowid_greater: "x \<in> set ids \<Longrightarrow> x < next_rowid ids"
  by (simp add: next_rowid_Max less_Suc_eq_le)

lemma next_rowid_append_new:
  assumes "set ids' \<subseteq> set ids"
  shows "next_rowid (ids' @ [next_rowid ids]) = Suc (next_rowid ids)"
proof -
  have "Max (insert 0 (set (ids' @ [next_rowid ids]))) = next_rowid ids"
  proof (intro Max_eqI)
    fix y assume "y \<in> insert 0 (set (ids' @ [next_rowid ids]))"
    then show "y \<le> next_rowid ids"
      using assms next_rowid_greater [of y ids] by auto
  qed auto
  then show ?thesis
    by (simp only: next_rowid_Max [of "ids' @ [next_rowid ids]"])
qed

lemma next_rowid_insert_or_replace_file:
  "next_rowid (map f_id (insert_or_replace_file rows info)) = Suc (next_rowid (map f_id rows))"
  by (simp add: insert_or_replace_file_def)
     (rule next_rowid_append_new, auto)

lemma next_rowid_append_self [simp]:
  "next_rowid (ids @ [next_rowid ids]) = Suc (next_rowid ids)"
  by (rule next_rowid_append_new) simp

lemma new_queue_row_fields [simp]:
  "q_id (new_queue_row q f ts) = q"
  "file_id (new_queue_row q f ts) = f"
  "status (new_queue_row q f ts) = ''pending''"
  by (simp_all add: new_queue_row_def)

lemma not_raises_less: "\<not> store_raises t n \<Longrightarrow> m \<le> n \<Longrightarrow> \<not> store_raises t m"
  by (auto simp: store_raises_def split: option.splits)

text \<open>A save that no statement of the transaction interrupts.\<close>

lemma save_to_db_not_raised:
  assumes "\<not> store_raises t 3"
  shows "save_to_db s info t =
    (if fi_processing_status info = ''processed''
     then s\<lparr>files := insert_or_replace_file (files s) info,
            processing_queue := processing_queue s @
              [new_queue_row (next_rowid (map q_id (processing_queue s)))
                 (next_rowid (map f_id (files s))) (now t 1)]\<rparr>
     else s\<lparr>files := insert_or_replace_file (files s) info\<rparr>)"
proof -
  note st = not_raises_stmt [OF assms]
  show ?thesis
    by (simp add: save_to_db_def save_to_db_try_def insert_queue_def st
        select_file_id_insert_or_replace)
qed

lemma index_directory_single_processed:
  assumes "fe_stat fe = Some st" and "file_ext_of (fe_path fe) \<in> supported_formats"
    and "fe_convert fe = Converted txt" and "\<not> store_raises t 3"
  shows "\<exists>info. fi_file_path info = path_str (fe_path fe) \<and>
     db (index_directory md5 supported_formats s True [(FileEntry fe, t)]) =
       s\<lparr>files := insert_or_replace_file (files s) info,
         processing_queue := processing_queue s @
           [new_queue_row (next_rowid (map q_id (processing_queue s)))
              (next_rowid (map f_id (files s))) (now t 1)]\<rparr>"
proof -
  obtain info where p: "process_file md5 supported_formats fe (now t 0) = Some info"
    and status: "fi_processing_status info = ''processed''"
    using process_file_converted [OF assms(1-3), of md5 "now t 0"] by simp
  have "db (index_directory md5 supported_formats s True [(FileEntry fe, t)]) =
      save_to_db s info t"
    using db_index_entry_file [OF p] by (simp add: index_directory_def)
  then show ?thesis
    using process_file_path [OF p] save_to_db_not_raised [OF assms(4), of s info] status
    by (intro exI [of _ info]) simp
qed

lemma index_runs_single_file:
  assumes "fe_stat fe = Some st" and "file_ext_of (fe_path fe) \<in> supported_formats"
    and "fe_convert fe = Converted txt" and "\<forall>t\<in>set ts. \<not> store_raises t 3"
  shows "processing_queue
           (index_runs md5 supported_formats s (map (\<lambda>t. [(FileEntry fe, t)]) ts)) =
         processing_queue s @
           queued_rows (next_rowid (map q_id (processing_queue s)))
             (next_rowid (map f_id (files s))) ts \<and>
         next_rowid (map f_id
           (files (index_runs md5 supported_formats s (map (\<lambda>t. [(FileEntry fe, t)]) ts)))) =
         next_rowid (map f_id (files s)) + length ts \<and>
         (ts \<noteq> [] \<longrightarrow>
           select_file_id
             (files (index_runs md5 supported_formats s (map (\<lambda>t. [(FileEntry fe, t)]) ts)))
             (path_str (fe_path fe)) =
           Some (next_rowid (map f_id (files s)) + length ts - 1))"
  using assms(4)
proof (induction ts arbitrary: s)
  case Nil
  then show ?case by simp
next
  case (Cons t ts)
  have nr: "\<not> store_raises t 3" and rest: "\<forall>t\<in>set ts. \<not> store_raises t 3"
    using Cons.prems by auto
  obtain info where path: "fi_file_path info = path_str (fe_path fe)"
    and run: "db (index_directory md5 supported_formats s True [(FileEntry fe, t)]) =
       s\<lparr>files := insert_or_replace_file (files s) info,
         processing_queue := processing_queue s @
           [new_queue_row (next_rowid (map q_id (processing_queue s)))
              (next_rowid (map f_id (files s))) (now t 1)]\<rparr>"
    using index_directory_single_processed [OF assms(1-3) nr, of md5 s] by blast
  let ?s1 = "db (index_directory md5 supported_formats s True [(FileEntry fe, t)])"
  have q1: "next_rowid (map q_id (processing_queue ?s1)) =
      Suc (next_rowid (map q_id (processing_queue s)))"
    unfolding run by simp
  have f1: "next_rowid (map f_id (files ?s1)) = Suc (next_rowid (map f_id (files s)))"
    unfolding run by (simp add: next_rowid_insert_or_replace_file)
  have pq1: "processing_queue ?s1 = processing_queue s @
           [new_queue_row (next_rowid (map q_id (processing_queue s)))
              (next_rowid (map f_id (files s))) (now t 1)]"
    unfolding run by simp
  have sel1: "select_file_id (files ?s1) (path_str (fe_path fe)) =
      Some (next_rowid (map f_id (files s)))"
    unfolding run using select_file_id_insert_or_replace [of "files s" info] path by simp
  note ih = Cons.IH [OF rest, of ?s1, unfolded q1 f1, unfolded pq1]
  show ?case
  proof (cases "ts = []")
    case True
    then show ?thesis
      using pq1 f1 sel1 by simp
  next
    case False
    then show ?thesis
      using ih by simp
  qed
qed

lemma length_queued_rows [simp]: "length (queued_rows q f ts) = length ts"
  by (induction ts arbitrary: q f) auto

lemma file_id_queued_rows: "map file_id (queued_rows q f ts) = [f..<f + length ts]"
  by (induction ts arbitrary: q f) (auto simp: upt_rec)

lemma status_queued_rows: "map status (queued_rows q f ts) = replicate (length ts) ''pending''"
  by (induction ts arbitrary: q f) auto

text \<open>Queue growth of one run, for any walk: one row for every record counted processed.\<close>

lemma index_entry_queue_growth:
  assumes "\<not> store_raises (snd et) 3"
  shows "length (processing_queue (db (index_entry md5 supported_formats r et))) + processed r =
         length (processing_queue (db r)) + processed (index_entry md5 supported_formats r et)"
proof (cases et)
  case (Pair e t)
  have nr: "\<not> store_raises t 3"
    using assms Pair by simp
  show ?thesis
  proof (cases e)
    case (FileEntry fe)
    show ?thesis
    proof (cases "process_file md5 supported_formats fe (now t 0)")
      case None
      then show ?thesis
        by (simp add: Pair FileEntry index_entry_def)
    next
      case (Some info)
      then show ?thesis
        by (simp add: Pair FileEntry index_entry_def Let_def save_to_db_not_raised [OF nr])
    qed
  next
    case (DirEntry de)
    then show ?thesis
      by (simp add: Pair index_entry_def process_directory_def stmt_def
          split: option.splits)
  next
    case (OtherEntry p)
    then show ?thesis
      by (simp add: Pair index_entry_def)
  qed
qed

lemma index_entries_queue_growth:
  assumes "\<forall>et\<in>set walk. \<not> store_raises (snd et) 3"
  shows "length (processing_queue (db (index_entries md5 supported_formats r walk))) +
           processed r =
         length (processing_queue (db r)) +
           processed (index_entries md5 supported_formats r walk)"
  using assms
proof (induction walk arbitrary: r)
  case Nil
  then show ?case by simp
next
  case (Cons et walk)
  have a: "\<not> store_raises (snd et) 3" and b: "\<forall>et\<in>set walk. \<not> store_raises (snd et) 3"
    using Cons.prems by auto
  show ?case
    using Cons.IH [OF b, of "index_entry md5 supported_formats r et"]
      index_entry_queue_growth [OF a, of md5 supported_formats r]
    by simp
qed

text \<open>
  C9 as stated says that indexing the same unchanged eligible file in \<open>k\<close> successive
  runs yields \<open>k\<close> queue rows referencing that file's path. Three runs over
  \<open>a.txt\<close> on a fresh catalog do append three queue rows, with \<open>file_id\<close> 1, 2 and
  3, but the file's row has id 3 after the third run: one queue row references the
  path, not three.
\<close>

theorem C9_queue_rows_of_path_counterexample:
  "map file_id (processing_queue
     (index_runs ex_md5 ex_formats ex_catalog
        (map (\<lambda>t. [(FileEntry ex_file_a, t)]) [ex_tick, ex_tick, ex_tick]))) = [1, 2, 3] \<and>
   map f_id (files
     (index_runs ex_md5 ex_formats ex_catalog
        (map (\<lambda>t. [(FileEntry ex_file_a, t)]) [ex_tick, ex_tick, ex_tick]))) = [3] \<and>
   map file_path (files
     (index_runs ex_md5 ex_formats ex_catalog
        (map (\<lambda>t. [(FileEntry ex_file_a, t)]) [ex_tick, ex_tick, ex_tick]))) =
     [''/root/a.txt''] \<and>
   map file_id (queue_rows_of_path
     (index_runs ex_md5 ex_formats ex_catalog
        (map (\<lambda>t. [(FileEntry ex_file_a, t)]) [ex_tick, ex_tick, ex_tick]))
     ''/root/a.txt'') = [3] \<and>
   length (queue_rows_of_path
     (index_runs ex_md5 ex_formats ex_catalog
        (map (\<lambda>t. [(FileEntry ex_file_a, t)]) [ex_tick, ex_tick, ex_tick]))
     ''/root/a.txt'') = 1"
  by code_simp

text \<open>
  C9, amended. Every uninterrupted save of a record with status \<open>processed\<close> appends
  one queue row with status \<open>pending\<close>, whose \<open>file_id\<close> is the id that the row of
  the file's path has right after the upsert; nothing is looked up in the queue first.
  Indexing the same eligible file in \<open>k\<close> successive runs appends \<open>k\<close> queue rows, not
  one, all \<open>pending\<close>, the \<open>i\<close>-th with the id the file's row received in the
  \<open>i\<close>-th run; and a run over any walk appends as many queue rows as it counts
  processed files.
\<close>

theorem C9_queue_row_per_save:
  assumes "fi_processing_status info = ''processed''" and "\<not> store_raises t 3"
    and "fe_stat fe = Some st" and "file_ext_of (fe_path fe) \<in> supported_formats"
    and "fe_convert fe = Converted txt" and "\<forall>t\<in>set ts. \<not> store_raises t 3"
    and "\<forall>et\<in>set walk. \<not> store_raises (snd et) 3"
  shows "processing_queue (save_to_db s info t) =
           processing_queue s @
             [new_queue_row (next_rowid (map q_id (processing_queue s)))
                (next_rowid (map f_id (files s))) (now t 1)] \<and>
         select_file_id (files (save_to_db s info t)) (fi_file_path info) =
           Some (next_rowid (map f_id (files s))) \<and>
         status (new_queue_row (next_rowid (map q_id (processing_queue s)))
                (next_rowid (map f_id (files s))) (now t 1)) = ''pending'' \<and>
         processing_queue
           (index_runs md5 supported_formats s' (map (\<lambda>t. [(FileEntry fe, t)]) ts)) =
           processing_queue s' @
             queued_rows (next_rowid (map q_id (processing_queue s')))
               (next_rowid (map f_id (files s'))) ts \<and>
         length (processing_queue
           (index_runs md5 supported_formats s' (map (\<lambda>t. [(FileEntry fe, t)]) ts))) =
           length (processing_queue s') + length ts \<and>
         map status (queued_rows (next_rowid (map q_id (processing_queue s')))
               (next_rowid (map f_id (files s'))) ts) = replicate (length ts) ''pending'' \<and>
         map file_id (queued_rows (next_rowid (map q_id (processing_queue s')))
               (next_rowid (map f_id (files s'))) ts) =
           [next_rowid (map f_id (files s'))..<next_rowid (map f_id (files s')) + length ts] \<and>
         length (processing_queue (db (index_directory md5 supported_formats s'' True walk))) =
           length (processing_queue s'') +
           processed (index_directory md5 supported_formats s'' True walk)"
proof -
  note save = save_to_db_not_raised [OF assms(2), of s info]
  have a: "processing_queue (save_to_db s info t) =
           processing_queue s @
             [new_queue_row (next_rowid (map q_id (processing_queue s)))
                (next_rowid (map f_id (files s))) (now t 1)]"
    by (simp add: save assms(1))
  have b: "select_file_id (files (save_to_db s info t)) (fi_file_path info) =
           Some (next_rowid (map f_id (files s)))"
    by (simp add: save assms(1) select_file_id_insert_or_replace)
  note runs = index_runs_single_file [OF assms(3-6), of md5 s']
  have c: "processing_queue
           (index_runs md5 supported_formats s' (map (\<lambda>t. [(FileEntry fe, t)]) ts)) =
           processing_queue s' @
             queued_rows (next_rowid (map q_id (processing_queue s')))
               (next_rowid (map f_id (files s'))) ts"
    using runs by blast
  have d: "length (processing_queue
           (index_runs md5 supported_formats s' (map (\<lambda>t. [(FileEntry fe, t)]) ts))) =
           length (processing_queue s') + length ts"
    by (simp add: c)
  have e: "length (processing_queue (db (index_directory md5 supported_formats s'' True walk))) =
           length (processing_queue s'') +
           processed (index_directory md5 supported_formats s'' True walk)"
    using index_entries_queue_growth [OF assms(7), of md5 supported_formats
        "\<lparr>db = s'', processed = 0, skipped = 0, failed = 0\<rparr>"]
    by (simp add: index_directory_def)
  show ?thesis
    using a b c d e status_queued_rows file_id_queued_rows by simp
qed

lemma ex_a_enabled: "file_ext_of (fe_path ex_file_a) \<in> ex_formats"
  by (simp add: ex_ext_a ex_formats_eq)

theorem C9_queue_row_per_save_witness:
  "fi_processing_status ex_info_d = ''processed'' \<and> \<not> store_raises ex_tick 3 \<and>
   fe_stat ex_file_a = Some ex_stat \<and> file_ext_of (fe_path ex_file_a) \<in> ex_formats \<and>
   fe_convert ex_file_a = Converted ''abc'' \<and>
   processing_queue (save_to_db ex_catalog ex_info_d ex_tick) =
     processing_queue ex_catalog @
       [new_queue_row (next_rowid (map q_id (processing_queue ex_catalog)))
          (next_rowid (map f_id (files ex_catalog))) (now ex_tick 1)] \<and>
   select_file_id (files (save_to_db ex_catalog ex_info_d ex_tick)) (fi_file_path ex_info_d) =
     Some (next_rowid (map f_id (files ex_catalog))) \<and>
   status (new_queue_row (next_rowid (map q_id (processing_queue ex_catalog)))
          (next_rowid (map f_id (files ex_catalog))) (now ex_tick 1)) = ''pending'' \<and>
   processing_queue
     (index_runs ex_md5 ex_formats ex_catalog
        (map (\<lambda>t. [(FileEntry ex_file_a, t)]) [ex_tick, ex_tick, ex_tick])) =
     processing_queue ex_catalog @
       queued_rows (next_rowid (map q_id (processing_queue ex_catalog)))
         (next_rowid (map f_id (files ex_catalog))) [ex_tick, ex_tick, ex_tick] \<and>
   length (processing_queue
     (index_runs ex_md5 ex_formats ex_catalog
        (map (\<lambda>t. [(FileEntry ex_file_a, t)]) [ex_tick, ex_tick, ex_tick]))) =
     length (processing_queue ex_catalog) + length [ex_tick, ex_tick, ex_tick] \<and>
   map status (queued_rows (next_rowid (map q_id (processing_queue ex_catalog)))
         (next_rowid (map f_id (files ex_catalog))) [ex_tick, ex_tick, ex_tick]) =
     replicate (length [ex_tick, ex_tick, ex_tick]) ''pending'' \<and>
   map file_id (queued_rows (next_rowid (map q_id (processing_queue ex_catalog)))
         (next_rowid (map f_id (files ex_catalog))) [ex_tick, ex_tick, ex_tick]) =
     [next_rowid (map f_id (files ex_catalog))..<
      next_rowid (map f_id (files ex_catalog)) + length [ex_tick, ex_tick, ex_tick]] \<and>
   length (processing_queue (db (index_directory ex_md5 ex_formats ex_catalog True ex_walk))) =
     length (processing_queue ex_catalog) +
     processed (index_directory ex_md5 ex_formats ex_catalog True ex_walk)"
proof -
  have h1: "fi_processing_status ex_info_d = ''processed''"
    by (simp add: ex_info_d_def)
  have h3: "fe_stat ex_file_a = Some ex_stat" and h5: "fe_convert ex_file_a = Converted ''abc''"
    by (simp_all add: ex_file_a_def)
  have h6: "\<forall>t\<in>set [ex_tick, ex_tick, ex_tick]. \<not> store_raises t 3"
    by (simp add: ex_tick_never_raises)
  have h7: "\<forall>et\<in>set ex_walk. \<not> store_raises (snd et) 3"
    by (simp add: ex_walk_def ex_tick_never_raises)
  show ?thesis
    by (rule conjI [OF h1 conjI [OF ex_tick_never_raises conjI [OF h3 conjI [OF ex_a_enabled
          conjI [OF h5 C9_queue_row_per_save [OF h1 ex_tick_never_raises h3 ex_a_enabled h5
            h6 h7]]]]]])
qed

subsection \<open>Indexing the same tree twice\<close>

lemma map_of_filter_other:
  "q \<noteq> p \<Longrightarrow>
   map_of (map (\<lambda>r. (file_path r, checksum r)) (filter (\<lambda>r. file_path r \<noteq> p) rows)) q =
   map_of (map (\<lambda>r. (file_path r, checksum r)) rows) q"
  by (induction rows) auto

lemma map_of_filter_self:
  "map_of (map (\<lambda>r. (file_path r, checksum r)) (filter (\<lambda>r. file_path r \<noteq> p) rows)) p = None"
  by (induction rows) auto

lemma checksum_new_file_row [simp]: "checksum (new_file_row rid info) = fi_checksum info"
  by (simp add: new_file_row_def)

lemma map_of_insert_or_replace_file:
  "map_of (map (\<lambda>r. (file_path r, checksum r)) (insert_or_replace_file rows info)) =
   (map_of (map (\<lambda>r. (file_path r, checksum r)) rows))(fi_file_path info \<mapsto> fi_checksum info)"
proof
  fix q
  show "map_of (map (\<lambda>r. (file_path r, checksum r)) (insert_or_replace_file rows info)) q =
    ((map_of (map (\<lambda>r. (file_path r, checksum r)) rows))
       (fi_file_path info \<mapsto> fi_checksum info)) q"
    by (cases "q = fi_file_path info")
       (simp_all add: insert_or_replace_file_def map_add_def map_of_filter_other
          map_of_filter_self split: option.split)
qed

lemma paths_insert_or_replace_file:
  "set (map file_path (insert_or_replace_file rows info)) =
     insert (fi_file_path info) (set (map file_path rows))"
  by (auto simp: insert_or_replace_file_def)

lemma distinct_insert_or_replace_file:
  "distinct (map file_path rows) \<Longrightarrow> distinct (map file_path (insert_or_replace_file rows info))"
  by (auto simp: insert_or_replace_file_def distinct_map_filter)

lemma dir_path_insert_or_replace_dir:
  "set (map dir_path (insert_or_replace_dir rows p st ts)) =
     insert (path_str p) (set (map dir_path rows))"
  by (auto simp: insert_or_replace_dir_def)

lemma distinct_insert_or_replace_dir:
  "distinct (map dir_path rows) \<Longrightarrow> distinct (map dir_path (insert_or_replace_dir rows p st ts))"
  by (auto simp: insert_or_replace_dir_def distinct_map_filter)

text \<open>Whatever the store does, a save either changes nothing or is the upsert.\<close>

lemma save_to_db_cases:
  "save_to_db s info t = s \<or>
   (files (save_to_db s info t) = insert_or_replace_file (files s) info \<and>
    directories (save_to_db s info t) = directories s)"
  by (auto simp: save_to_db_def save_to_db_try_def stmt_def insert_queue_def
      split: sum.splits option.splits if_splits)

lemma process_directory_cases:
  "process_directory s de t = s \<or>
   (\<exists>st. de_stat de = Some st \<and>
      directories (process_directory s de t) =
        insert_or_replace_dir (directories s) (de_path de) st (now t 0) \<and>
      files (process_directory s de t) = files s)"
  by (auto simp: process_directory_def stmt_def split: option.splits)

lemma unique_paths_index_entry:
  assumes "unique_paths (db r)"
  shows "unique_paths (db (index_entry md5 supported_formats r et))"
proof (cases et)
  case (Pair e t)
  show ?thesis
  proof (cases e)
    case (FileEntry fe)
    show ?thesis
    proof (cases "process_file md5 supported_formats fe (now t 0)")
      case None
      then show ?thesis
        using assms by (simp add: Pair FileEntry index_entry_def)
    next
      case (Some info)
      have "unique_paths (save_to_db (db r) info t)"
        using save_to_db_cases [of "db r" info t] assms
          distinct_insert_or_replace_file [of "files (db r)" info]
        by (auto simp: unique_paths_def)
      then show ?thesis
        by (simp add: Pair FileEntry db_index_entry_file [OF Some])
    qed
  next
    case (DirEntry de)
    have "unique_paths (process_directory (db r) de t)"
      using process_directory_cases [of "db r" de t] assms
        distinct_insert_or_replace_dir [of "directories (db r)"]
      by (auto simp: unique_paths_def)
    then show ?thesis
      by (simp add: Pair DirEntry index_entry_def)
  next
    case (OtherEntry p)
    then show ?thesis
      using assms by (simp add: Pair index_entry_def)
  qed
qed

lemma unique_paths_index_entries:
  "unique_paths (db r) \<Longrightarrow> unique_paths (db (index_entries md5 supported_formats r walk))"
  by (induction walk arbitrary: r) (auto simp: unique_paths_index_entry)

lemma unique_paths_index_directory:
  "unique_paths s \<Longrightarrow> unique_paths (db (index_directory md5 supported_formats s ex walk))"
  by (simp add: index_directory_def unique_paths_index_entries)

lemma process_directory_not_raised:
  assumes "\<not> store_raises t 2"
  shows "process_directory s de t =
    (case de_stat de of
       None \<Rightarrow> s
     | Some st \<Rightarrow>
         s\<lparr>directories := insert_or_replace_dir (directories s) (de_path de) st (now t 0)\<rparr>)"
proof -
  note st = not_raises_stmt [OF assms]
  show ?thesis
    by (simp add: process_directory_def st split: option.splits)
qed

lemma file_checksums_index_entry:
  assumes "\<not> store_raises t 3"
  shows "file_checksums (db (index_entry md5 supported_formats r (e, t))) =
         file_checksums (db r) ++ entry_checksum md5 e"
proof (cases e)
  case (FileEntry fe)
  show ?thesis
  proof (cases "fe_stat fe")
    case None
    then show ?thesis
      by (simp add: FileEntry index_entry_stat_fails entry_checksum_def)
  next
    case (Some st)
    then obtain info where p: "process_file md5 supported_formats fe (now t 0) = Some info"
      using process_file_Some_iff [of md5 supported_formats fe "now t 0"] by auto
    have "file_checksums (save_to_db (db r) info t) =
        (file_checksums (db r))(fi_file_path info \<mapsto> fi_checksum info)"
      by (simp add: file_checksums_def save_to_db_not_raised [OF assms]
          map_of_insert_or_replace_file)
    then show ?thesis
      using Some process_file_path [OF p] process_file_checksum [OF p]
      by (simp add: FileEntry db_index_entry_file [OF p] entry_checksum_def)
  qed
next
  case (DirEntry de)
  have nr: "\<not> store_raises t 2"
    using assms by (rule not_raises_less) simp
  show ?thesis
    by (simp add: DirEntry index_entry_def entry_checksum_def file_checksums_def
        process_directory_not_raised [OF nr] split: option.splits)
next
  case (OtherEntry p)
  then show ?thesis
    by (simp add: index_entry_def entry_checksum_def)
qed

lemma file_checksums_index_entries:
  assumes "\<forall>et\<in>set walk. \<not> store_raises (snd et) 3"
  shows "file_checksums (db (index_entries md5 supported_formats r walk)) =
         file_checksums (db r) ++ saved_checksums md5 (map fst walk)"
  using assms
proof (induction walk arbitrary: r)
  case Nil
  then show ?case by simp
next
  case (Cons et walk)
  obtain e t where et: "et = (e, t)"
    by (cases et)
  have nr: "\<not> store_raises t 3" and rest: "\<forall>et\<in>set walk. \<not> store_raises (snd et) 3"
    using Cons.prems et by auto
  show ?case
    using Cons.IH [OF rest, of "index_entry md5 supported_formats r (e, t)"]
      file_checksums_index_entry [OF nr, of md5 supported_formats r e]
    by (simp add: et)
qed

lemma dir_paths_index_entry:
  assumes "\<not> store_raises t 3"
  shows "set (map dir_path (directories (db (index_entry md5 supported_formats r (e, t))))) =
         set (map dir_path (directories (db r))) \<union> entry_dir_path e"
proof (cases e)
  case (FileEntry fe)
  show ?thesis
  proof (cases "process_file md5 supported_formats fe (now t 0)")
    case None
    then show ?thesis
      by (simp add: FileEntry index_entry_def entry_dir_path_def)
  next
    case (Some info)
    then show ?thesis
      by (simp add: FileEntry db_index_entry_file [OF Some] entry_dir_path_def
          save_to_db_not_raised [OF assms])
  qed
next
  case (DirEntry de)
  have nr: "\<not> store_raises t 2"
    using assms by (rule not_raises_less) simp
  show ?thesis
    by (auto simp: DirEntry index_entry_def entry_dir_path_def
        process_directory_not_raised [OF nr] insert_or_replace_dir_def split: option.splits)
next
  case (OtherEntry p)
  then show ?thesis
    by (simp add: index_entry_def entry_dir_path_def)
qed

lemma dir_paths_index_entries:
  assumes "\<forall>et\<in>set walk. \<not> store_raises (snd et) 3"
  shows "set (map dir_path (directories (db (index_entries md5 supported_formats r walk)))) =
         set (map dir_path (directories (db r))) \<union> (\<Union>e\<in>set (map fst walk). entry_dir_path e)"
  using assms
proof (induction walk arbitrary: r)
  case Nil
  then show ?case by simp
next
  case (Cons et walk)
  obtain e t where et: "et = (e, t)"
    by (cases et)
  have nr: "\<not> store_raises t 3" and rest: "\<forall>et\<in>set walk. \<not> store_raises (snd et) 3"
    using Cons.prems et by auto
  show ?case
    using Cons.IH [OF rest, of "index_entry md5 supported_formats r (e, t)"]
      dir_paths_index_entry [OF nr, of md5 supported_formats r e]
    by (auto simp: et)
qed

lemma dom_file_checksums: "dom (file_checksums s) = set (map file_path (files s))"
  by (auto simp: file_checksums_def dom_map_of_conv_image_fst image_iff)

lemma length_files_card:
  "unique_paths s \<Longrightarrow> length (files s) = card (dom (file_checksums s))"
  using distinct_card [of "map file_path (files s)"]
  by (simp add: unique_paths_def dom_file_checksums)

lemma length_directories_card:
  "unique_paths s \<Longrightarrow> length (directories s) = card (set (map dir_path (directories s)))"
  using distinct_card [of "map dir_path (directories s)"]
  by (simp add: unique_paths_def)

lemma map_of_find_checksum:
  "map_of (map (\<lambda>r. (file_path r, checksum r)) rows) p =
     map_option checksum (find (\<lambda>r. file_path r = p) rows)"
  by (induction rows) auto

lemma file_checksums_select:
  "file_checksums s p = map_option checksum (select_file s p)"
  by (simp add: file_checksums_def select_file_def map_of_find_checksum)

lemma map_add_twice: "(m ++ d) ++ d = m ++ d"
  by (rule ext) (simp add: map_add_def split: option.split)

text \<open>
  C4. In a catalog whose paths are unique, indexing the same tree twice (the same
  entries, in the same order, with the same answers of the file system and the converter;
  only the clock differs, and no save is interrupted) changes neither the number of file
  rows nor the number of directory rows nor the checksum stored under any path; after
  every step of either run the paths of the file rows and of the directory rows are
  pairwise distinct.
\<close>

theorem C4_reindex_idempotent:
  assumes "unique_paths s"
    and "\<forall>et\<in>set walk. \<not> store_raises (snd et) 3"
    and "\<forall>et\<in>set walk'. \<not> store_raises (snd et) 3"
    and "map fst walk' = map fst walk"
  shows "length (files (index_runs md5 supported_formats s [walk, walk'])) =
           length (files (index_runs md5 supported_formats s [walk])) \<and>
         length (directories (index_runs md5 supported_formats s [walk, walk'])) =
           length (directories (index_runs md5 supported_formats s [walk])) \<and>
         file_checksums (index_runs md5 supported_formats s [walk, walk']) =
           file_checksums (index_runs md5 supported_formats s [walk]) \<and>
         (\<forall>p. map_option checksum
                (select_file (index_runs md5 supported_formats s [walk, walk']) p) =
              map_option checksum
                (select_file (index_runs md5 supported_formats s [walk]) p)) \<and>
         (\<forall>n. unique_paths (index_runs md5 supported_formats s [take n walk]) \<and>
              unique_paths (index_runs md5 supported_formats s [walk, take n walk']))"
proof -
  let ?r0 = "\<lparr>db = s, processed = 0, skipped = 0, failed = 0\<rparr>"
  let ?s1 = "index_runs md5 supported_formats s [walk]"
  let ?r1 = "\<lparr>db = ?s1, processed = 0, skipped = 0, failed = 0\<rparr>"
  let ?s2 = "index_runs md5 supported_formats s [walk, walk']"
  have s1: "?s1 = db (index_entries md5 supported_formats ?r0 walk)"
    by (simp add: index_directory_def)
  have s2: "?s2 = db (index_entries md5 supported_formats ?r1 walk')"
    by (simp add: index_directory_def)
  have u1: "unique_paths ?s1"
    unfolding s1 using assms(1) by (intro unique_paths_index_entries) simp
  have u2: "unique_paths ?s2"
    unfolding s2 using u1 by (intro unique_paths_index_entries) simp
  have c1: "file_checksums ?s1 = file_checksums s ++ saved_checksums md5 (map fst walk)"
    unfolding s1 using file_checksums_index_entries [OF assms(2), of md5 supported_formats ?r0]
    by simp
  have c2: "file_checksums ?s2 = file_checksums ?s1 ++ saved_checksums md5 (map fst walk)"
    unfolding s2 using file_checksums_index_entries [OF assms(3), of md5 supported_formats ?r1]
    by (simp add: assms(4))
  have cs: "file_checksums ?s2 = file_checksums ?s1"
    unfolding c2 unfolding c1 by (rule map_add_twice)
  have d1: "set (map dir_path (directories ?s1)) =
      set (map dir_path (directories s)) \<union> (\<Union>e\<in>set (map fst walk). entry_dir_path e)"
    unfolding s1 using dir_paths_index_entries [OF assms(2), of md5 supported_formats ?r0]
    by simp
  have d2: "set (map dir_path (directories ?s2)) =
      set (map dir_path (directories ?s1)) \<union> (\<Union>e\<in>set (map fst walk). entry_dir_path e)"
    unfolding s2 using dir_paths_index_entries [OF assms(3), of md5 supported_formats ?r1]
    by (simp add: assms(4))
  have ds: "set (map dir_path (directories ?s2)) = set (map dir_path (directories ?s1))"
    unfolding d2 unfolding d1 by blast
  have lf: "length (files ?s2) = length (files ?s1)"
    by (simp only: length_files_card [OF u1] length_files_card [OF u2] cs)
  have ld: "length (directories ?s2) = length (directories ?s1)"
    by (simp only: length_directories_card [OF u1] length_directories_card [OF u2] ds)
  have sel: "map_option checksum (select_file ?s2 p) = map_option checksum (select_file ?s1 p)"
    for p
    using arg_cong [OF cs, of "\<lambda>m. m p"] by (simp only: file_checksums_select)
  have pre: "unique_paths (index_runs md5 supported_formats s [take n walk]) \<and>
             unique_paths (index_runs md5 supported_formats s [walk, take n walk'])" for n
    using unique_paths_index_directory [OF assms(1), of md5 supported_formats True "take n walk"]
      unique_paths_index_directory [OF u1, of md5 supported_formats True "take n walk'"]
    by simp
  show ?thesis
    using lf ld cs sel pre by blast
qed

lemma ex_unique_paths: "unique_paths ex_catalog"
  by (simp add: unique_paths_def ex_catalog_def init_database_def empty_catalog_def)

lemma ex_tick_later_never_raises: "\<not> store_raises ex_tick_later n"
  by (simp add: store_raises_def ex_tick_later_def)

lemma ex_walks_same_tree: "map fst ex_walk_second = map fst ex_walk_first"
  by (simp add: ex_walk_first_def ex_walk_second_def comp_def)

theorem C4_reindex_idempotent_witness:
  "unique_paths ex_catalog \<and>
   list_all (\<lambda>et. \<not> store_raises (snd et) 3) ex_walk_first \<and>
   list_all (\<lambda>et. \<not> store_raises (snd et) 3) ex_walk_second \<and>
   map fst ex_walk_second = map fst ex_walk_first \<and>
   length (files (index_runs ex_md5 ex_formats ex_catalog [ex_walk_first, ex_walk_second])) =
     length (files (index_runs ex_md5 ex_formats ex_catalog [ex_walk_first])) \<and>
   length (directories (index_runs ex_md5 ex_formats ex_catalog [ex_walk_first, ex_walk_second])) =
     length (directories (index_runs ex_md5 ex_formats ex_catalog [ex_walk_first])) \<and>
   file_checksums (index_runs ex_md5 ex_formats ex_catalog [ex_walk_first, ex_walk_second]) =
     file_checksums (index_runs ex_md5 ex_formats ex_catalog [ex_walk_first]) \<and>
   (\<forall>p. map_option checksum
          (select_file (index_runs ex_md5 ex_formats ex_catalog [ex_walk_first, ex_walk_second]) p) =
        map_option checksum
          (select_file (index_runs ex_md5 ex_formats ex_catalog [ex_walk_first]) p)) \<and>
   (\<forall>n. unique_paths (index_runs ex_md5 ex_formats ex_catalog [take n ex_walk_first]) \<and>
        unique_paths (index_runs ex_md5 ex_formats ex_catalog
          [ex_walk_first, take n ex_walk_second]))"
proof -
  have h2: "\<forall>et\<in>set ex_walk_first. \<not> store_raises (snd et) 3"
    by (simp add: ex_walk_first_def ex_tick_never_raises)
  have h3: "\<forall>et\<in>set ex_walk_second. \<not> store_raises (snd et) 3"
    by (simp add: ex_walk_second_def ex_tick_later_never_raises)
  have l2: "list_all (\<lambda>et. \<not> store_raises (snd et) 3) ex_walk_first"
    using h2 by (simp only: list_all_iff)
  have l3: "list_all (\<lambda>et. \<not> store_raises (snd et) 3) ex_walk_second"
    using h3 by (simp only: list_all_iff)
  show ?thesis
    by (rule conjI [OF ex_unique_paths conjI [OF l2 conjI [OF l3 conjI [OF ex_walks_same_tree
          C4_reindex_idempotent [OF ex_unique_paths h2 h3 ex_walks_same_tree]]]]])
qed

lemma ex_first_run_rows:
  "map file_path (files (index_runs ex_md5 ex_formats ex_catalog [ex_walk_first])) =
     [''/root/a.txt'', ''/root/b.xyz'', ''/root/d.txt''] \<and>
   map checksum (files (index_runs ex_md5 ex_formats ex_catalog [ex_walk_first])) =
     [Some ''md5:abc'', Some ''md5:abc'', None] \<and>
   map dir_path (directories (index_runs ex_md5 ex_formats ex_catalog [ex_walk_first])) =
     [''/root/docs'']"
  by code_simp

end
